theory Spec2Isabelle
  imports Complex_Main "HOL-Library.Log_Nat"
begin

section \<open>Strings\<close>

text \<open>
  A JavaScript string is a sequence of UTF-16 code units. The model uses \<^typ>\<open>string\<close>
  and reads each \<^typ>\<open>char\<close> as the code unit of the same number, so it covers the
  strings whose code units are below 256 (Basic Latin and Latin-1 Supplement). On that
  range \<open>trim\<close>, \<open>toLowerCase\<close> and \<open>includes\<close> work one code unit at a time, as
  defined here.
\<close>

definition isWhiteSpace :: "char \<Rightarrow> bool" where
  \<comment> \<open>WhiteSpace and LineTerminator of ECMAScript below 256: TAB, LF, VT, FF, CR, SP, NBSP.\<close>
  "isWhiteSpace c = (of_char c \<in> {9, 10, 11, 12, 13, 32, 160 :: nat})"

definition trimStart :: "string \<Rightarrow> string" where
  "trimStart s = dropWhile isWhiteSpace s"

definition trim :: "string \<Rightarrow> string" where
  \<comment> \<open>\<open>String.prototype.trim\<close>\<close>
  "trim s = rev (dropWhile isWhiteSpace (rev (dropWhile isWhiteSpace s)))"

definition lowerChar :: "char \<Rightarrow> char" where
  \<comment> \<open>A-Z and the Latin-1 capitals (U+00C0 to U+00DE without the multiplication sign U+00D7)
      move up by 32; every other code unit below 256 is its own lower case.\<close>
  "lowerChar c =
     (let n = (of_char c :: nat)
      in if (65 \<le> n \<and> n \<le> 90) \<or> (192 \<le> n \<and> n \<le> 222 \<and> n \<noteq> 215) then char_of (n + 32) else c)"

definition toLowerCase :: "string \<Rightarrow> string" where
  "toLowerCase s = map lowerChar s"

fun startsWith :: "string \<Rightarrow> string \<Rightarrow> bool" where
  \<comment> \<open>\<open>startsWith s t\<close>: \<open>t\<close> is a prefix of \<open>s\<close>\<close>
  "startsWith s [] = True"
| "startsWith [] (c # t) = False"
| "startsWith (d # s) (c # t) = (d = c \<and> startsWith s t)"

fun str_includes :: "string \<Rightarrow> string \<Rightarrow> bool" where
  \<comment> \<open>\<open>String.prototype.includes\<close>: \<open>str_includes s t\<close> holds when \<open>t\<close> occurs in \<open>s\<close>\<close>
  "str_includes [] t = (t = [])"
| "str_includes (d # s) t = (startsWith (d # s) t \<or> str_includes s t)"

section \<open>Numbers\<close>

text \<open>
  A JavaScript number is an IEEE 754 binary64 value. \<open>Fin r\<close> is the finite double whose
  exact value is the rational \<open>r\<close>; the two zeros are one value \<open>Fin 0\<close> (the program
  never tells them apart: comparison, \<open>===\<close>, \<open>toFixed\<close> and truthiness treat them alike).
  Arithmetic that rounds (\<open>+\<close>, \<open>parseFloat\<close>) goes through \<open>fl\<close>, round to nearest with
  ties to even.
\<close>

datatype number = Fin rat | PosInf | NegInf | NaN

definition ilog2 :: "rat \<Rightarrow> int" where
  \<comment> \<open>\<open>\<lfloor>log\<^sub>2 a\<rfloor>\<close> for \<open>0 < a\<close>\<close>
  "ilog2 a = (if 1 \<le> a then bitlen \<lfloor>a\<rfloor> - 1 else - bitlen (\<lceil>1 / a\<rceil> - 1))"

definition roundHalfEven :: "rat \<Rightarrow> int" where
  "roundHalfEven y =
     (let f = \<lfloor>y\<rfloor>; d = y - of_int f
      in if d < 1 / 2 then f else if 1 / 2 < d then f + 1 else if even f then f else f + 1)"

definition scale2 :: "rat \<Rightarrow> int \<Rightarrow> rat" where
  \<comment> \<open>\<open>y * 2\<^sup>k\<close> for an integer \<open>k\<close> of either sign\<close>
  "scale2 y k = (if 0 \<le> k then y * 2 ^ nat k else y / 2 ^ nat (- k))"

definition fl :: "rat \<Rightarrow> number" where
  \<comment> \<open>the double nearest to \<open>x\<close>: 53 significant bits, least exponent -1022 (subnormals
      below it), overflow to infinity\<close>
  "fl x =
     (if x = 0 then Fin 0
      else
        let a = \<bar>x\<bar>;
            e = max (ilog2 a) (- 1022);
            m = roundHalfEven (scale2 a (52 - e));
            r = scale2 (of_int m) (e - 52)
        in if 2 ^ 1024 \<le> r then (if 0 < x then PosInf else NegInf)
           else Fin (if 0 < x then r else - r))"


fun numAdd :: "number \<Rightarrow> number \<Rightarrow> number" where
  \<comment> \<open>the operator \<open>+\<close> on two numbers\<close>
  "numAdd (Fin a) (Fin b) = fl (a + b)"
| "numAdd NaN y = NaN"
| "numAdd x NaN = NaN"
| "numAdd PosInf NegInf = NaN"
| "numAdd NegInf PosInf = NaN"
| "numAdd PosInf y = PosInf"
| "numAdd NegInf y = NegInf"
| "numAdd x PosInf = PosInf"
| "numAdd x NegInf = NegInf"

fun numNeg :: "number \<Rightarrow> number" where
  \<comment> \<open>unary minus\<close>
  "numNeg (Fin a) = Fin (- a)"
| "numNeg PosInf = NegInf"
| "numNeg NegInf = PosInf"
| "numNeg NaN = NaN"

fun numLess :: "number \<Rightarrow> number \<Rightarrow> bool" where
  \<comment> \<open>the operator \<open><\<close>; \<open>x > y\<close> is \<open>numLess y x\<close>\<close>
  "numLess (Fin a) (Fin b) = (a < b)"
| "numLess NaN y = False"
| "numLess x NaN = False"
| "numLess x NegInf = False"
| "numLess PosInf y = False"
| "numLess NegInf y = True"
| "numLess x PosInf = True"

fun strictEq :: "number \<Rightarrow> number \<Rightarrow> bool" where
  \<comment> \<open>the operator \<open>===\<close> on two numbers\<close>
  "strictEq NaN y = False"
| "strictEq x NaN = False"
| "strictEq x y = (x = y)"

fun numDiv :: "number \<Rightarrow> number \<Rightarrow> number" where
  \<comment> \<open>the operator \<open>/\<close> on two numbers; a zero divisor is the positive zero\<close>
  "numDiv (Fin a) (Fin b) =
     (if b = 0 then (if a = 0 then NaN else if 0 < a then PosInf else NegInf) else fl (a / b))"
| "numDiv NaN y = NaN"
| "numDiv x NaN = NaN"
| "numDiv (Fin a) y = Fin 0"
| "numDiv PosInf (Fin b) = (if b < 0 then NegInf else PosInf)"
| "numDiv NegInf (Fin b) = (if b < 0 then PosInf else NegInf)"
| "numDiv x y = NaN"

fun mathCeil :: "number \<Rightarrow> number" where
  \<comment> \<open>\<open>Math.ceil\<close>\<close>
  "mathCeil (Fin a) = Fin (of_int \<lceil>a\<rceil>)"
| "mathCeil x = x"

subsection \<open>Number to string\<close>

definition digitChar :: "nat \<Rightarrow> char" where
  "digitChar d = char_of (48 + d)"

function digits10 :: "nat \<Rightarrow> string" where
  \<comment> \<open>the decimal digits of a natural number, \<open>''0''\<close> for 0\<close>
  "digits10 n = (if n < 10 then [digitChar n] else digits10 (n div 10) @ [digitChar (n mod 10)])"
  by pat_completeness auto
termination
  by (relation "measure id") auto

declare digits10.simps [simp del]

definition shortestDigits :: "rat \<Rightarrow> nat \<times> nat \<times> nat" where
  \<comment> \<open>Number::toString, step 5, for a finite \<open>a \<ge> 10\<^sup>2\<^sup>1\<close>: integers \<open>(s, k, n)\<close> with
      \<open>10\<^sup>k\<^sup>-\<^sup>1 \<le> s < 10\<^sup>k\<close>, \<open>fl (s * 10\<^sup>n\<^sup>-\<^sup>k) = a\<close> and \<open>k\<close> least; among several \<open>s\<close> the one
      nearest to \<open>a\<close>, the even one on a tie. A double needs at most 17 digits.\<close>
  "shortestDigits a =
     (let d = length (digits10 (nat \<lfloor>a\<rfloor>));
          cands = (\<lambda>k. [(s, k, n).
                     n \<leftarrow> [d, d + 1],
                     s \<leftarrow> [nat \<lfloor>a / 10 ^ (n - k)\<rfloor>, nat \<lfloor>a / 10 ^ (n - k)\<rfloor> + 1],
                     10 ^ (k - 1) \<le> s \<and> s < 10 ^ k \<and> fl (of_nat s * 10 ^ (n - k)) = Fin a]);
          dist = (\<lambda>(s, k, n). \<bar>of_nat s * 10 ^ (n - k) - a\<bar>);
          better = (\<lambda>c b. if dist c < dist b \<or> (dist c = dist b \<and> even (fst c)) then c else b)
      in case concat (map (\<lambda>k. case cands k of [] \<Rightarrow> [] | c # cs \<Rightarrow> [foldl better c cs]) [1 ..< 18]) of
           [] \<Rightarrow> (nat \<lfloor>a / 10 ^ (d - 17)\<rfloor>, 17, d)
         | c # _ \<Rightarrow> c)"

definition toStringExp :: "rat \<Rightarrow> string" where
  \<comment> \<open>Number::toString for a finite \<open>a \<ge> 10\<^sup>2\<^sup>1\<close>: there \<open>n > 21\<close>, so the result is in
      exponential notation\<close>
  "toStringExp a =
     (case shortestDigits a of (s, k, n) \<Rightarrow>
        let ds = digits10 s
        in (if k = 1 then ds else take 1 ds @ ''.'' @ drop 1 ds) @ ''e+'' @ digits10 (n - 1))"

definition toFixed :: "nat \<Rightarrow> number \<Rightarrow> string" where
  \<comment> \<open>\<open>Number.prototype.toFixed\<close>, called as \<open>x.toFixed(f)\<close> with \<open>f \<le> 100\<close>\<close>
  "toFixed f x =
     (case x of
        NaN \<Rightarrow> ''NaN''
      | PosInf \<Rightarrow> ''Infinity''
      | NegInf \<Rightarrow> ''-Infinity''
      | Fin r \<Rightarrow>
          let s = (if r < 0 then ''-'' else '''');
              a = \<bar>r\<bar>
          in if 10 ^ 21 \<le> a then s @ toStringExp a
             else
               let n = nat \<lfloor>a * 10 ^ f + 1 / 2\<rfloor>;
                   m = digits10 n;
                   m = (if f \<noteq> 0 \<and> length m \<le> f then replicate (f + 1 - length m) CHR ''0'' @ m else m);
                   k = length m
               in if f \<noteq> 0 then s @ take (k - f) m @ ''.'' @ drop (k - f) m else s @ m)"

subsection \<open>String to number\<close>

definition isDigit :: "char \<Rightarrow> bool" where
  "isDigit c = (48 \<le> (of_char c :: nat) \<and> (of_char c :: nat) \<le> 57)"

definition digitsValue :: "string \<Rightarrow> nat" where
  "digitsValue ds = foldl (\<lambda>v c. 10 * v + (of_char c - 48)) 0 ds"

definition parseFloat :: "string \<Rightarrow> number" where
  \<comment> \<open>the global \<open>parseFloat\<close>: leading white space is skipped, the longest prefix that is a
      decimal literal is read, anything after it is ignored, and no such prefix gives NaN\<close>
  "parseFloat input =
     (let t = trimStart input;
          negative = startsWith t ''-'';
          t = (if startsWith t ''-'' \<or> startsWith t ''+'' then tl t else t)
      in if startsWith t ''Infinity'' then (if negative then NegInf else PosInf)
         else
           let ip = takeWhile isDigit t;
               t = dropWhile isDigit t;
               fp = (if startsWith t ''.'' then takeWhile isDigit (tl t) else '''');
               t = (if startsWith t ''.'' then dropWhile isDigit (tl t) else t);
               u = (if startsWith t ''e'' \<or> startsWith t ''E'' then tl t else '''');
               eneg = startsWith u ''-'';
               u = (if startsWith u ''-'' \<or> startsWith u ''+'' then tl u else u);
               ep = (if startsWith t ''e'' \<or> startsWith t ''E'' then takeWhile isDigit u else '''');
               mant = (of_nat (digitsValue (ip @ fp)) :: rat) / 10 ^ length fp;
               v = (if eneg then mant / 10 ^ digitsValue ep else mant * 10 ^ digitsValue ep)
           in if ip = '''' \<and> fp = '''' then NaN
              else fl (if negative then - v else v))"

section \<open>Values of the transcription\<close>

text \<open>
  \<open>JSON.parse\<close> returns null, a boolean, a number, a string, an array or an object; an
  object is the list of its own properties, each key once. A property that is read and
  absent is \<open>undefined\<close>, which is \<open>None\<close> in a \<^typ>\<open>'a option\<close>.
\<close>

datatype json =
    JNull
  | JBool bool
  | JNum number
  | JStr string
  | JArr "json list"
  | JObj "(string \<times> json) list"

datatype js_error = TypeError | SyntaxError | Error string

definition bindE :: "js_error + 'a \<Rightarrow> ('a \<Rightarrow> js_error + 'b) \<Rightarrow> js_error + 'b" where
  \<comment> \<open>sequencing: a thrown error skips what follows\<close>
  "bindE r f = (case r of Inl e \<Rightarrow> Inl e | Inr v \<Rightarrow> f v)"

fun getProp :: "json \<Rightarrow> string \<Rightarrow> js_error + json option" where
  \<comment> \<open>\<open>v.k\<close> for the property names this program reads (\<open>date\<close>, \<open>description\<close>, \<open>moneyIn\<close>,
      \<open>moneyOut\<close>, \<open>currency\<close>, \<open>name\<close>, \<open>address\<close>, \<open>startingBalance\<close>, \<open>endingBalance\<close>,
      \<open>transactions\<close>): reading from null throws, an object gives its own property, and a
      boolean, number, string or array has none of them\<close>
  "getProp JNull k = Inl TypeError"
| "getProp (JObj fs) k = Inr (map_of fs k)"
| "getProp v k = Inr None"

definition field :: "json \<Rightarrow> string \<Rightarrow> json option" where
  \<comment> \<open>the value of \<open>v.k\<close> where reading it does not throw\<close>
  "field v k = (case getProp v k of Inl e \<Rightarrow> None | Inr x \<Rightarrow> x)"

fun typeof :: "json option \<Rightarrow> string" where
  "typeof None = ''undefined''"
| "typeof (Some JNull) = ''object''"
| "typeof (Some (JBool b)) = ''boolean''"
| "typeof (Some (JNum n)) = ''number''"
| "typeof (Some (JStr s)) = ''string''"
| "typeof (Some (JArr xs)) = ''object''"
| "typeof (Some (JObj fs)) = ''object''"

fun truthy :: "json option \<Rightarrow> bool" where
  \<comment> \<open>ToBoolean\<close>
  "truthy None = False"
| "truthy (Some JNull) = False"
| "truthy (Some (JBool b)) = b"
| "truthy (Some (JNum n)) = (n \<noteq> Fin 0 \<and> n \<noteq> NaN)"
| "truthy (Some (JStr s)) = (s \<noteq> [])"
| "truthy (Some (JArr xs)) = True"
| "truthy (Some (JObj fs)) = True"

fun callTrim :: "json option \<Rightarrow> js_error + string" where
  \<comment> \<open>\<open>v.trim()\<close>: only a string has the method\<close>
  "callTrim (Some (JStr s)) = Inr (trim s)"
| "callTrim v = Inl TypeError"

fun numberOr0 :: "json option \<Rightarrow> number" where
  \<comment> \<open>\<open>typeof v === "number" ? v : 0\<close>\<close>
  "numberOr0 (Some (JNum n)) = n"
| "numberOr0 v = Fin 0"

section \<open>The route: normalizing, reconciling, assembling\<close>

text \<open>
  \<open>extractStatementDetails\<close> of the route that returns a currency. The fields of its
  interfaces keep
  their names, except that the statement's \<open>date\<close> and \<open>currency\<close> are \<open>statementDate\<close>
  and \<open>statementCurrency\<close> here, because a transaction has fields of the same names. The
  view's \<open>Transaction\<close> has \<open>date\<close>, \<open>desc\<close> and \<open>amount\<close>; the route's adds \<open>currency\<close>.
\<close>

record Transaction =
  date :: string
  desc :: string
  amount :: number

record CurrencyTransaction = Transaction +
  currency :: json

record StatementDetails =
  name :: "json option"
  address :: "json option"
  statementDate :: "json option"
  startingBalance :: "json option"
  endingBalance :: "json option"
  transactions :: "CurrencyTransaction list"
  reconciles :: "bool option"
  statementCurrency :: "json option"
  error :: "string option"

definition txCurrency :: "json option \<Rightarrow> json option \<Rightarrow> json" where
  \<comment> \<open>\<open>typeof tx.currency === "string" ? tx.currency : (currency || "$")\<close>; the first
      argument is the statement's \<open>currency\<close>, the second \<open>tx.currency\<close>\<close>
  "txCurrency cur c =
     (if typeof c = ''string'' then the c
      else if truthy cur then the cur else JStr ''$'')"

definition normalizeEntry :: "json option \<Rightarrow> json \<Rightarrow> js_error + CurrencyTransaction list" where
  \<comment> \<open>the function given to \<open>flatMap\<close>; \<open>cur\<close> is the statement's \<open>currency\<close>\<close>
  "normalizeEntry cur tx =
     bindE (getProp tx ''date'') (\<lambda>d.
       if typeof d \<noteq> ''string'' then Inr []
       else
     bindE (getProp tx ''description'') (\<lambda>ds.
       if typeof ds \<noteq> ''string'' then Inr []
       else
     bindE (getProp tx ''moneyIn'') (\<lambda>mi.
     bindE (getProp tx ''moneyOut'') (\<lambda>mo.
     bindE (getProp tx ''currency'') (\<lambda>c.
       let moneyIn = numberOr0 mi;
           moneyOut = numberOr0 mo
       in if numLess (Fin 0) moneyIn \<and> numLess (Fin 0) moneyOut then Inr []
          else if numLess moneyIn (Fin 0) \<or> numLess moneyOut (Fin 0) then Inr []
          else
     bindE (callTrim d) (\<lambda>trimmedDate.
     bindE (callTrim ds) (\<lambda>trimmedDesc.
       Inr [\<lparr> date = trimmedDate,
              desc = (if trimmedDesc \<noteq> [] then trimmedDesc else ''No Description''),
              amount = (if numLess (Fin 0) moneyIn then moneyIn else numNeg moneyOut),
              currency = txCurrency cur c \<rparr>])))))))"

fun flatMapE :: "('a \<Rightarrow> js_error + 'b list) \<Rightarrow> 'a list \<Rightarrow> js_error + 'b list" where
  \<comment> \<open>\<open>Array.prototype.flatMap\<close> with a function that may throw: the elements in order,
      the first error ends the call\<close>
  "flatMapE f [] = Inr []"
| "flatMapE f (x # xs) =
     (case f x of
        Inl e \<Rightarrow> Inl e
      | Inr ys \<Rightarrow> (case flatMapE f xs of Inl e \<Rightarrow> Inl e | Inr zs \<Rightarrow> Inr (ys @ zs)))"

definition normalizeTransactions :: "json option \<Rightarrow> json option \<Rightarrow> js_error + CurrencyTransaction list" where
  \<comment> \<open>\<open>Array.isArray(rawTransactions) ? rawTransactions.flatMap(...) : []\<close>\<close>
  "normalizeTransactions cur rawTransactions =
     (case rawTransactions of
        Some (JArr xs) \<Rightarrow> flatMapE (normalizeEntry cur) xs
      | _ \<Rightarrow> Inr [])"

definition sumTx :: "'a Transaction_scheme list \<Rightarrow> number" where
  \<comment> \<open>\<open>transactions.reduce((acc, t) => acc + t.amount, 0)\<close>\<close>
  "sumTx txs = foldl (\<lambda>acc t. numAdd acc (amount t)) (Fin 0) txs"

definition reconcile :: "json option \<Rightarrow> json option \<Rightarrow> 'a Transaction_scheme list \<Rightarrow> bool option" where
  \<comment> \<open>the value of \<open>reconciles\<close>; \<open>None\<close> is null\<close>
  "reconcile sb eb txs =
     (case (sb, eb) of
        (Some (JNum s), Some (JNum e)) \<Rightarrow>
          Some (strictEq (parseFloat (toFixed 2 (numAdd s (sumTx txs)))) (parseFloat (toFixed 2 e)))
      | _ \<Rightarrow> None)"

definition resolveCurrency :: "json option \<Rightarrow> CurrencyTransaction list \<Rightarrow> json" where
  \<comment> \<open>\<open>currency || (transactions[0]?.currency ?? "$")\<close>\<close>
  "resolveCurrency cur txs =
     (if truthy cur then the cur
      else case txs of
             [] \<Rightarrow> JStr ''$''
           | t # _ \<Rightarrow> (if currency t = JNull then JStr ''$'' else currency t))"

definition assemble :: "json \<Rightarrow> js_error + StatementDetails" where
  \<comment> \<open>the \<open>try\<close> block from the destructuring of \<open>parsed\<close> to its \<open>return\<close>\<close>
  "assemble parsed =
     bindE (getProp parsed ''name'') (\<lambda>nm.
     bindE (getProp parsed ''address'') (\<lambda>addr.
     bindE (getProp parsed ''date'') (\<lambda>dt.
     bindE (getProp parsed ''startingBalance'') (\<lambda>sb.
     bindE (getProp parsed ''endingBalance'') (\<lambda>eb.
     bindE (getProp parsed ''transactions'') (\<lambda>rawTransactions.
     bindE (getProp parsed ''currency'') (\<lambda>cur.
     bindE (normalizeTransactions cur rawTransactions) (\<lambda>txs.
       Inr \<lparr> name = nm,
             address = addr,
             statementDate = dt,
             startingBalance = sb,
             endingBalance = eb,
             transactions = txs,
             reconciles = reconcile sb eb txs,
             statementCurrency = Some (resolveCurrency cur txs),
             error = None \<rparr>))))))))"

definition errorResult :: StatementDetails where
  \<comment> \<open>what the \<open>catch\<close> block returns; it has no \<open>currency\<close>\<close>
  "errorResult =
     \<lparr> name = Some JNull,
       address = Some JNull,
       statementDate = Some JNull,
       startingBalance = Some JNull,
       endingBalance = Some JNull,
       transactions = [],
       reconciles = None,
       statementCurrency = None,
       error = Some ''Failed to extract statement details'' \<rparr>"

definition extractStatementDetails :: "(string \<Rightarrow> js_error + json) \<Rightarrow> string option \<Rightarrow> StatementDetails" where
  \<comment> \<open>the function after the completion request, from the completion's \<open>content\<close>
      (\<open>None\<close> is null) to the returned value; \<open>JSON_parse\<close> is \<open>JSON.parse\<close>, which throws a
      SyntaxError on text that is not JSON\<close>
  "extractStatementDetails JSON_parse content =
     (case (case content of
              None \<Rightarrow> Inl (Error ''Empty LLM response'')
            | Some c \<Rightarrow>
                if c = [] then Inl (Error ''Empty LLM response'')
                else bindE (JSON_parse c) assemble) of
        Inl e \<Rightarrow> errorResult
      | Inr r \<Rightarrow> r)"

section \<open>The view: search and pagination\<close>

definition filteredTransactions :: "string \<Rightarrow> 'a Transaction_scheme list \<Rightarrow> 'a Transaction_scheme list" where
  "filteredTransactions search txs =
     (let term = toLowerCase (trim search)
      in if term = [] then txs
         else filter (\<lambda>tx. str_includes (toLowerCase (date tx)) term \<or>
                           str_includes (toLowerCase (desc tx)) term \<or>
                           str_includes (toFixed 2 (amount tx)) term) txs)"

text \<open>
  The page number and the page size are integers: the size is one of the options 5, 10,
  15, 25, 50 of the select, and the page is set to 1 or moved by one step inside
  \<open>1 .. pageCount\<close>. \<open>pageCount\<close> computes on integers, with the exact quotient;
  \<open>pageCountNumber\<close> is the same expression on numbers, with the quotient rounded to a
  double. They agree for a list shorter than \<open>2\<^sup>3\<^sup>2\<close>, as every array is, and a positive
  page size below \<open>2\<^sup>5\<^sup>3\<close>.
\<close>

definition pageCount :: "nat \<Rightarrow> int \<Rightarrow> int" where
  \<comment> \<open>\<open>Math.ceil(filteredTransactions.length / pageSize) || 1\<close>, for \<open>pageSize \<noteq> 0\<close>\<close>
  "pageCount len pageSize =
     (let c = \<lceil>(of_nat len :: rat) / of_int pageSize\<rceil> in if c = 0 then 1 else c)"

definition pageCountNumber :: "nat \<Rightarrow> int \<Rightarrow> number" where
  \<comment> \<open>\<open>Math.ceil(filteredTransactions.length / pageSize) || 1\<close> on numbers, with the
      division that rounds\<close>
  "pageCountNumber len pageSize =
     (let c = mathCeil (numDiv (Fin (of_nat len)) (Fin (of_int pageSize)))
      in if truthy (Some (JNum c)) then c else Fin 1)"

definition slice :: "'a list \<Rightarrow> int \<Rightarrow> int \<Rightarrow> 'a list" where
  \<comment> \<open>\<open>Array.prototype.slice(start, end)\<close> with integer arguments\<close>
  "slice xs start stop =
     (let len = int (length xs);
          k = (if start < 0 then max (len + start) 0 else min start len);
          final = (if stop < 0 then max (len + stop) 0 else min stop len)
      in take (nat (final - k)) (drop (nat k) xs))"

definition paginatedTransactions :: "'a list \<Rightarrow> int \<Rightarrow> int \<Rightarrow> 'a list" where
  "paginatedTransactions filtered page pageSize =
     slice filtered ((page - 1) * pageSize) (page * pageSize)"

section \<open>Sample inputs\<close>

definition coffeeEntry :: json where
  "coffeeEntry =
     JObj [(''date'', JStr ''01-01-2024''), (''description'', JStr ''Coffee Shop''),
           (''moneyIn'', JNum (Fin 0)), (''moneyOut'', JNum (Fin (7 / 2))), (''currency'', JStr ''$'')]"

definition salaryEntry :: json where
  "salaryEntry =
     JObj [(''date'', JStr ''02-01-2024''), (''description'', JStr ''Salary''),
           (''moneyIn'', JNum (Fin 2000)), (''moneyOut'', JNull), (''currency'', JStr ''$'')]"

definition blankEntry :: json where
  "blankEntry = JObj [(''date'', JStr ''  ''), (''description'', JStr ''x''), (''currency'', JStr '''')]"

definition coffeeTransaction :: CurrencyTransaction where
  "coffeeTransaction =
     \<lparr> date = ''01-01-2024'', desc = ''Coffee Shop'', amount = Fin (- (7 / 2)), currency = JStr ''$'' \<rparr>"

definition salaryTransaction :: CurrencyTransaction where
  "salaryTransaction =
     \<lparr> date = ''02-01-2024'', desc = ''Salary'', amount = Fin 2000, currency = JStr ''$'' \<rparr>"

definition ambiguousEntry :: json where
  "ambiguousEntry =
     JObj [(''date'', JStr ''03-01-2024''), (''description'', JStr ''Transfer''),
           (''moneyIn'', JNum (Fin 10)), (''moneyOut'', JNum (Fin 5))]"

definition negativeEntry :: json where
  "negativeEntry =
     JObj [(''date'', JStr ''04-01-2024''), (''description'', JStr ''Refund''),
           (''moneyIn'', JNum (Fin (- 1)))]"

definition undatedEntry :: json where
  "undatedEntry =
     JObj [(''date'', JNum (Fin 20240105)), (''description'', JStr ''Fee''),
           (''moneyOut'', JNum (Fin 2))]"

definition parseSample :: "string \<Rightarrow> js_error + json" where
  \<comment> \<open>\<open>JSON.parse\<close> at the texts the examples read: \<open>5\<close>, \<open>[]\<close> and \<open>null\<close> are JSON, and
      \<open>not json\<close> is not; no other text is read\<close>
  "parseSample c =
     (if c = ''5'' then Inr (JNum (Fin 5))
      else if c = ''[]'' then Inr (JArr [])
      else if c = ''null'' then Inr JNull
      else Inl SyntaxError)"

section \<open>Notions of the specification\<close>

definition roundCents :: "rat \<Rightarrow> rat" where
  \<comment> \<open>a value rounded to 2 decimal places, a half away from zero\<close>
  "roundCents x = (if x < 0 then - 1 else 1) * of_int \<lfloor>\<bar>x\<bar> * 100 + 1 / 2\<rfloor> / 100"




definition trimmed :: "string \<Rightarrow> bool" where
  \<comment> \<open>no white space at either end\<close>
  "trimmed s = (s = [] \<or> (\<not> isWhiteSpace (hd s) \<and> \<not> isWhiteSpace (last s)))"

fun stringOf :: "json option \<Rightarrow> string" where
  \<comment> \<open>the characters of a string value\<close>
  "stringOf (Some (JStr s)) = s"
| "stringOf v = []"




section \<open>Facts about strings and numbers\<close>

subsection \<open>Trimming and searching\<close>

lemma hd_dropWhile_not: "dropWhile P xs \<noteq> [] \<Longrightarrow> \<not> P (hd (dropWhile P xs))"
  by (induction xs) auto

lemma trimmed_trim: "trimmed (trim s)"
proof (cases "trim s = []")
  case True
  then show ?thesis by (simp add: trimmed_def)
next
  case False
  define u where "u = dropWhile isWhiteSpace s"
  define w where "w = dropWhile isWhiteSpace (rev u)"
  have ts: "trim s = rev w"
    by (simp add: trim_def u_def w_def)
  with False have wne: "w \<noteq> []"
    by simp
  then have "\<not> isWhiteSpace (hd w)"
    unfolding w_def by (rule hd_dropWhile_not)
  with wne have last_ok: "\<not> isWhiteSpace (last (rev w))"
    by (simp add: last_rev)
  have "rev u = takeWhile isWhiteSpace (rev u) @ w"
    by (simp add: w_def)
  then have "u = rev w @ rev (takeWhile isWhiteSpace (rev u))"
    by (metis rev_append rev_rev_ident)
  then obtain r where u: "u = rev w @ r"
    by blast
  from wne have une: "u \<noteq> []" and hd_eq: "hd (rev w) = hd u"
    by (simp_all add: u hd_append)
  from une have "\<not> isWhiteSpace (hd u)"
    unfolding u_def by (rule hd_dropWhile_not)
  with hd_eq last_ok ts show ?thesis
    by (simp add: trimmed_def)
qed

lemma trimmed_placeholder: "trimmed ''No Description''"
  by (simp add: trimmed_def isWhiteSpace_def)




subsection \<open>Letter case\<close>

lemma of_char_less_256: "(of_char c :: nat) < 256"
  by (cases c) simp











subsection \<open>Rounding to a double\<close>

lemma roundHalfEven_of_int: "roundHalfEven (of_int j) = j"
  by (simp add: roundHalfEven_def)

lemma ilog2_of_int: "1 \<le> k \<Longrightarrow> ilog2 (of_int k) = bitlen k - 1"
  by (simp add: ilog2_def)

lemma bitlen_less_pow2:
  assumes "0 < k" and "k < 2 ^ n"
  shows "bitlen k \<le> int n"
proof -
  from bitlen_bounds [OF assms(1)] assms(2) have "(2::int) ^ nat (bitlen k - 1) < 2 ^ n"
    by linarith
  then have "nat (bitlen k - 1) < n"
    by simp
  then show ?thesis
    by linarith
qed

lemma fl_of_int:
  assumes "\<bar>n\<bar> < 2 ^ 53"
  shows "fl (of_int n) = Fin (of_int n)"
proof (cases "n = 0")
  case True
  then show ?thesis by (simp add: fl_def)
next
  case False
  define k where "k = \<bar>n\<bar>"
  have k: "1 \<le> k" "k < 2 ^ 53"
    using False assms by (simp_all add: k_def)
  define e where "e = bitlen k - 1"
  have e: "0 \<le> e" "e \<le> 52"
    using bitlen_less_pow2 [of k 53] k bitlen_bounds [of k] by (auto simp add: e_def bitlen_alt_def)
  have a: "\<bar>rat_of_int n\<bar> = of_int k"
    by (simp add: k_def)
  have il: "max (ilog2 (of_int k)) (- 1022) = e"
    using e k by (simp add: ilog2_of_int e_def)
  have s1: "scale2 (of_int k) (52 - e) = of_int (k * 2 ^ nat (52 - e))"
    using e by (simp add: scale2_def)
  have s2: "scale2 (of_int (k * 2 ^ nat (52 - e))) (e - 52) = of_int k"
    using e by (cases "e = 52") (simp_all add: scale2_def)
  have small: "\<not> (2 :: rat) ^ 1024 \<le> of_int k"
  proof -
    have "rat_of_int k < of_int (2 ^ 53)"
      using k by (simp only: of_int_less_iff)
    also have "\<dots> \<le> 2 ^ 1024"
      by simp
    finally show ?thesis by simp
  qed
  have "fl (of_int n) = Fin (if 0 < rat_of_int n then of_int k else - of_int k)"
    using False small
    by (simp add: fl_def a il s1 s2 roundHalfEven_of_int Let_def del: of_int_mult of_int_power)
  also have "(if 0 < rat_of_int n then rat_of_int k else - of_int k) = of_int n"
    by (simp add: k_def)
  finally show ?thesis .
qed

lemma fl_numeral: "numeral w < (2 :: int) ^ 53 \<Longrightarrow> fl (numeral w) = Fin (numeral w)"
  using fl_of_int [of "numeral w"] by simp

lemma fl_neg_numeral: "numeral w < (2 :: int) ^ 53 \<Longrightarrow> fl (- numeral w) = Fin (- numeral w)"
  using fl_of_int [of "- numeral w"] by simp

lemma scale2_powi: "scale2 y k = y * 2 powi k"
  by (simp add: scale2_def power_int_def field_simps)

lemma roundHalfEven_error: "\<bar>of_int (roundHalfEven y) - y\<bar> \<le> 1 / 2"
proof -
  have "rat_of_int \<lfloor>y\<rfloor> \<le> y" "y < rat_of_int \<lfloor>y\<rfloor> + 1"
    by linarith+
  then show ?thesis
    unfolding roundHalfEven_def Let_def by (auto simp add: abs_if) linarith+
qed

lemma ilog2_bounds:
  assumes "0 < a"
  shows "2 powi (ilog2 a) \<le> a" and "a < 2 powi (ilog2 a + 1)"
proof -
  have "2 powi (ilog2 a) \<le> a \<and> a < 2 powi (ilog2 a + 1)"
  proof (cases "1 \<le> a")
    case True
    define k where "k = \<lfloor>a\<rfloor>"
    have k: "1 \<le> k"
      using True by (simp add: k_def le_floor_iff)
    then have bl: "1 \<le> bitlen k"
      by (simp add: bitlen_alt_def)
    from bitlen_bounds [of k] k have b: "2 ^ nat (bitlen k - 1) \<le> k" "k < 2 ^ nat (bitlen k)"
      by simp_all
    have il: "ilog2 a = bitlen k - 1"
      using True by (simp add: ilog2_def k_def)
    have "rat_of_int (2 ^ nat (bitlen k - 1)) \<le> of_int k"
      using b(1) by (simp only: of_int_le_iff)
    also have "\<dots> \<le> a"
      by (simp add: k_def)
    finally have lo: "2 powi (ilog2 a) \<le> a"
      using bl by (simp add: il power_int_def)
    have "k + 1 \<le> 2 ^ nat (bitlen k)"
      using b(2) by simp
    then have "rat_of_int (k + 1) \<le> of_int (2 ^ nat (bitlen k))"
      by (simp only: of_int_le_iff)
    moreover have "a < of_int (k + 1)"
      unfolding k_def by linarith
    ultimately have "a < 2 ^ nat (bitlen k)"
      by simp
    then have hi: "a < 2 powi (ilog2 a + 1)"
      using bl by (simp add: il power_int_def)
    from lo hi show ?thesis ..
  next
    case False
    define c where "c = \<lceil>1 / a\<rceil>"
    define j where "j = bitlen (c - 1)"
    have inv: "1 < 1 / a"
      using False assms by simp
    then have c2: "2 \<le> c"
      by (simp add: c_def le_ceiling_iff)
    then have j1: "1 \<le> j"
      by (simp add: j_def bitlen_alt_def)
    from bitlen_bounds [of "c - 1"] c2 have b: "2 ^ nat (j - 1) \<le> c - 1" "c - 1 < 2 ^ nat j"
      by (simp_all add: j_def)
    have il: "ilog2 a = - j"
      using False by (simp add: ilog2_def c_def j_def)
    have "1 / a \<le> of_int c"
      by (simp add: c_def)
    also have "rat_of_int c \<le> of_int (2 ^ nat j)"
      using b(2) by (simp only: of_int_le_iff)
    finally have "1 / a \<le> 2 ^ nat j"
      by simp
    then have "1 \<le> 2 ^ nat j * a"
      using assms by (simp add: pos_divide_le_eq)
    then have lo: "2 powi (ilog2 a) \<le> a"
      using j1 by (simp add: il power_int_def field_simps)
    have "rat_of_int (2 ^ nat (j - 1)) \<le> of_int (c - 1)"
      using b(1) by (simp only: of_int_le_iff)
    also have "rat_of_int (c - 1) < 1 / a"
      unfolding c_def by linarith
    finally have "2 ^ nat (j - 1) * a < 1"
      using assms by (simp add: pos_less_divide_eq)
    then have "a < 1 / 2 ^ nat (j - 1)"
      by (simp add: pos_less_divide_eq mult.commute)
    moreover have "(2 :: rat) powi (- (j - 1)) = 1 / 2 ^ nat (j - 1)"
      using j1 by (cases "j = 1") (simp_all add: power_int_def power_one_over)
    moreover have "ilog2 a + 1 = - (j - 1)"
      by (simp add: il)
    ultimately have hi: "a < 2 powi (ilog2 a + 1)"
      by simp
    from lo hi show ?thesis ..
  qed
  then show "2 powi (ilog2 a) \<le> a" and "a < 2 powi (ilog2 a + 1)"
    by simp_all
qed

lemma fl_error:
  assumes "0 < x" and "- 1022 \<le> ilog2 x" and "x < 2 ^ 1023"
  shows "\<exists>y. fl x = Fin y \<and> \<bar>y - x\<bar> \<le> 2 powi (ilog2 x - 53)"
proof -
  define e where "e = ilog2 x"
  define m where "m = roundHalfEven (x * 2 powi (52 - e))"
  define r where "r = rat_of_int m * 2 powi (e - 52)"
  have p: "(2 :: rat) powi (52 - e) * 2 powi (e - 52) = 1"
    by (simp add: power_int_add [symmetric])
  have q: "(2 :: rat) powi (e - 53) * 2 = 2 powi (e - 52)"
    using power_int_add [of "2 :: rat" "e - 53" 1] by simp
  have pos: "0 < (2 :: rat) powi (e - 52)"
    by simp
  have "r - x = (of_int m - x * 2 powi (52 - e)) * 2 powi (e - 52)"
    using p by (simp add: r_def algebra_simps)
  then have "\<bar>r - x\<bar> = \<bar>of_int m - x * 2 powi (52 - e)\<bar> * 2 powi (e - 52)"
    using pos by (simp add: abs_mult)
  also have "\<dots> \<le> 1 / 2 * 2 powi (e - 52)"
    using roundHalfEven_error [of "x * 2 powi (52 - e)"] pos
    by (intro mult_right_mono) (simp_all add: m_def)
  also have "\<dots> = 2 powi (e - 53)"
    using q by simp
  finally have err: "\<bar>r - x\<bar> \<le> 2 powi (e - 53)" .
  have "2 powi (e - 53) \<le> (2 :: rat) powi e"
    by (intro power_int_increasing) simp_all
  also have "\<dots> \<le> x"
    using ilog2_bounds(1) [OF assms(1)] by (simp add: e_def)
  finally have "r \<le> x + x"
    using err by linarith
  also have "\<dots> < 2 ^ 1023 + 2 ^ 1023"
    using assms(3) by linarith
  finally have small: "\<not> 2 ^ 1024 \<le> r"
    by simp
  have xne: "(x = 0) = False" and xabs: "\<bar>x\<bar> = x" and xpos: "(0 < x) = True"
    using assms(1) by simp_all
  have sm: "(2 ^ 1024 \<le> r) = False"
    using small by simp
  have mx: "max (ilog2 x) (- 1022) = e"
    using assms(2) by (simp add: e_def)
  have "fl x = Fin r"
    by (simp only: fl_def Let_def xne xabs xpos mx scale2_powi m_def [symmetric] r_def [symmetric]
        sm if_False if_True)
  with err show ?thesis
    by (simp add: e_def)
qed

lemma fl_quotient_ceiling:
  fixes a :: nat and b :: int
  assumes "0 < b" and "b < 2 ^ 53" and "a < 2 ^ 32"
  shows "\<exists>y. fl (rat_of_nat a / rat_of_int b) = Fin y \<and> \<lceil>y\<rceil> = \<lceil>rat_of_nat a / rat_of_int b\<rceil>"
proof (cases "a = 0")
  case True
  then show ?thesis
    by (simp add: fl_def)
next
  case False
  define x where "x = rat_of_nat a / rat_of_int b"
  define k where "k = \<lceil>x\<rceil>"
  have bpos: "0 < rat_of_int b"
    using assms(1) by simp
  have xpos: "0 < x"
    using False bpos by (simp add: x_def)
  have k: "rat_of_int k - 1 < x" "x \<le> rat_of_int k"
    unfolding k_def by linarith+
  have a32: "rat_of_nat a < 2 ^ 32"
  proof -
    have "rat_of_nat a < rat_of_nat (2 ^ 32)"
      using assms(3) by (simp only: of_nat_less_iff)
    then show ?thesis by simp
  qed
  have lo: "(k - 1) * b < int a"
  proof -
    have "rat_of_int (k - 1) * rat_of_int b < rat_of_nat a"
      using k(1) bpos by (simp add: x_def pos_less_divide_eq)
    then have "rat_of_int ((k - 1) * b) < rat_of_int (int a)"
      by simp
    then show ?thesis
      by (simp only: of_int_less_iff)
  qed
  have hi: "int a \<le> k * b"
  proof -
    have "rat_of_nat a \<le> rat_of_int k * rat_of_int b"
      using k(2) bpos by (simp add: x_def pos_divide_le_eq)
    then have "rat_of_int (int a) \<le> rat_of_int (k * b)"
      by simp
    then show ?thesis
      by (simp only: of_int_le_iff)
  qed
  show ?thesis
  proof (cases "int a = k * b")
    case True
    have "rat_of_nat a = rat_of_int (int a)"
      by simp
    also have "\<dots> = rat_of_int k * rat_of_int b"
      by (simp only: True of_int_mult)
    finally have xk: "x = rat_of_int k"
      using bpos by (simp add: x_def)
    have kpos: "0 < k"
      using xpos xk by simp
    have "rat_of_int k < 2 ^ 32"
    proof -
      have "1 \<le> rat_of_int b"
        using assms(1) by simp
      then have "x \<le> rat_of_nat a / 1"
        unfolding x_def by (intro divide_left_mono) simp_all
      with a32 xk show ?thesis
        by simp
    qed
    also have "(2 :: rat) ^ 32 \<le> 2 ^ 53"
      by simp
    finally have "rat_of_int k < rat_of_int (2 ^ 53)"
      by simp
    then have "k < 2 ^ 53"
      by (simp only: of_int_less_iff)
    with kpos have "\<bar>k\<bar> < 2 ^ 53"
      by simp
    then have "fl (rat_of_int k) = Fin (rat_of_int k)"
      by (rule fl_of_int)
    then show ?thesis
      by (simp add: x_def [symmetric] xk)
  next
    case False
    with hi have hi': "int a + 1 \<le> k * b"
      by simp
    have xlt: "x < 2 ^ 32"
    proof -
      have "1 \<le> rat_of_int b"
        using assms(1) by simp
      then have "x \<le> rat_of_nat a / 1"
        unfolding x_def by (intro divide_left_mono) simp_all
      with a32 show ?thesis
        by simp
    qed
    have xgt: "1 / 2 ^ 53 < x"
    proof -
      have "rat_of_int b < rat_of_int (2 ^ 53)"
        using assms(2) by (simp only: of_int_less_iff)
      then have "rat_of_int b < 2 ^ 53"
        by simp
      then have "1 / 2 ^ 53 < 1 / rat_of_int b"
        using bpos by (simp add: frac_less2)
      also have "\<dots> \<le> x"
        using \<open>a \<noteq> 0\<close> bpos by (simp add: x_def divide_right_mono)
      finally show ?thesis .
    qed
    define e where "e = ilog2 x"
    from ilog2_bounds [OF xpos] have eb: "2 powi e \<le> x" "x < 2 powi (e + 1)"
      by (simp_all add: e_def)
    have "(2 :: rat) powi (- 53) = 1 / 2 ^ 53"
      by (simp add: power_int_def power_one_over)
    with xgt eb(2) have "(2 :: rat) powi (- 53) < 2 powi (e + 1)"
      by simp
    moreover have "(2 :: rat) powi (e + 1) \<le> 2 powi (- 53)" if "e + 1 \<le> - 53"
      using that by (intro power_int_increasing) simp_all
    ultimately have e1: "- 53 < e + 1"
      by fastforce
    then have e2: "- 1022 \<le> ilog2 x"
      by (simp add: e_def)
    have "x < 2 ^ 1023"
      using xlt by (rule less_trans) simp
    from fl_error [OF xpos e2 this] obtain y where
      y: "fl x = Fin y" and err: "\<bar>y - x\<bar> \<le> 2 powi (e - 53)"
      by (auto simp add: e_def)
    have "(2 :: rat) powi (e - 53) = 2 powi e * 2 powi (- 53)"
      using power_int_add [of "2 :: rat" e "- 53"] by simp
    also have "\<dots> = 2 powi e / 2 ^ 53"
      by (simp add: power_int_def [of _ "- 53"] power_one_over)
    also have "\<dots> \<le> x / 2 ^ 53"
      using eb(1) by (simp add: divide_right_mono)
    also have "x / 2 ^ 53 < 1 / rat_of_int b"
    proof -
      have "rat_of_nat a < 2 ^ 53"
        using a32 by (rule less_trans) simp
      have "x / 2 ^ 53 = (rat_of_nat a / 2 ^ 53) / rat_of_int b"
        by (simp add: x_def)
      also have "\<dots> < 1 / rat_of_int b"
        using bpos \<open>rat_of_nat a < 2 ^ 53\<close> by (intro divide_strict_right_mono) simp_all
      finally show ?thesis .
    qed
    finally have small: "\<bar>y - x\<bar> < 1 / rat_of_int b"
      using err by simp
    have xlo: "rat_of_int k - 1 + 1 / rat_of_int b \<le> x"
    proof -
      have "rat_of_int ((k - 1) * b + 1) \<le> rat_of_int (int a)"
        using lo by (simp only: of_int_le_iff)
      then have le: "(rat_of_int k - 1) * rat_of_int b + 1 \<le> rat_of_nat a"
        by simp
      have "rat_of_int k - 1 + 1 / rat_of_int b = ((rat_of_int k - 1) * rat_of_int b + 1) / rat_of_int b"
        using bpos by (simp add: add_divide_distrib)
      also have "\<dots> \<le> rat_of_nat a / rat_of_int b"
        using bpos le by (intro divide_right_mono) simp_all
      finally show ?thesis
        by (simp add: x_def)
    qed
    have xhi: "x + 1 / rat_of_int b \<le> rat_of_int k"
    proof -
      have "rat_of_int (int a + 1) \<le> rat_of_int (k * b)"
        using hi' by (simp only: of_int_le_iff)
      then have le: "rat_of_nat a + 1 \<le> rat_of_int k * rat_of_int b"
        by simp
      have "x + 1 / rat_of_int b = (rat_of_nat a + 1) / rat_of_int b"
        by (simp add: x_def add_divide_distrib)
      also have "\<dots> \<le> (rat_of_int k * rat_of_int b) / rat_of_int b"
        using bpos le by (intro divide_right_mono) simp_all
      finally show ?thesis
        using bpos by simp
    qed
    have "rat_of_int k - 1 < y" "y \<le> rat_of_int k"
      using small xlo xhi by linarith+
    then have "\<lceil>y\<rceil> = k"
      by (intro ceiling_unique) simp_all
    with y show ?thesis
      by (simp add: x_def [symmetric] k_def)
  qed
qed


subsection \<open>Writing a number with two decimals and reading it back\<close>

lemma of_char_digitChar: "d < 10 \<Longrightarrow> (of_char (digitChar d) :: nat) = 48 + d"
  by (simp add: digitChar_def)

lemma isDigit_digitChar: "d < 10 \<Longrightarrow> isDigit (digitChar d)"
  by (simp add: isDigit_def of_char_digitChar)

lemma isDigit_zero: "isDigit CHR ''0''"
  by (simp add: isDigit_def)

lemma isDigit_other:
  assumes "isDigit c"
  shows "\<not> isWhiteSpace c" and "c \<noteq> CHR ''-''" and "c \<noteq> CHR ''+''" and "c \<noteq> CHR ''I''"
  using assms by (auto simp add: isDigit_def isWhiteSpace_def)

lemma not_isDigit_dot: "\<not> isDigit CHR ''.''"
  by (simp add: isDigit_def)

lemma digits10_digits: "c \<in> set (digits10 n) \<Longrightarrow> isDigit c"
proof (induction n rule: digits10.induct)
  case (1 n)
  show ?case
  proof (cases "n < 10")
    case True
    with "1.prems" show ?thesis
      by (simp add: digits10.simps [of n] isDigit_digitChar)
  next
    case False
    with "1.prems" "1.IH" show ?thesis
      by (auto simp add: digits10.simps [of n] isDigit_digitChar)
  qed
qed

lemma digits10_nonempty: "digits10 n \<noteq> []"
  by (simp add: digits10.simps [of n])

lemma digitsValue_snoc: "digitsValue (ds @ [c]) = 10 * digitsValue ds + (of_char c - 48)"
  by (simp add: digitsValue_def)

lemma digitsValue_digits10: "digitsValue (digits10 n) = n"
proof (induction n rule: digits10.induct)
  case (1 n)
  show ?case
  proof (cases "n < 10")
    case True
    then show ?thesis
      by (simp add: digits10.simps [of n] digitsValue_def of_char_digitChar)
  next
    case False
    with "1.IH" show ?thesis
      by (simp add: digits10.simps [of n] digitsValue_snoc of_char_digitChar)
  qed
qed

lemma digitsValue_zeros: "digitsValue (replicate j CHR ''0'' @ ds) = digitsValue ds"
proof -
  have "foldl (\<lambda>v c. 10 * v + (of_char c - 48)) (0::nat) (replicate j CHR ''0'') = 0"
    by (induction j) simp_all
  then show ?thesis
    by (simp add: digitsValue_def)
qed

lemma parseFloat_fixed:
  assumes "ip \<noteq> []" and "\<forall>c \<in> set ip. isDigit c" and "\<forall>c \<in> set fp. isDigit c"
  shows "parseFloat (ip @ ''.'' @ fp) = fl (of_nat (digitsValue (ip @ fp)) / 10 ^ length fp)"
    and "parseFloat (''-'' @ ip @ ''.'' @ fp) = fl (- (of_nat (digitsValue (ip @ fp)) / 10 ^ length fp))"
proof -
  from assms(1) obtain x ip' where ip: "ip = x # ip'"
    by (cases ip) auto
  with assms(2) have x: "isDigit x"
    by simp
  have tw: "takeWhile isDigit (ip @ CHR ''.'' # fp) = ip"
    using assms(2) by (simp add: not_isDigit_dot)
  have dw: "dropWhile isDigit (ip @ CHR ''.'' # fp) = CHR ''.'' # fp"
    using assms(2) by (simp add: not_isDigit_dot)
  have twf: "takeWhile isDigit fp = fp" and dwf: "dropWhile isDigit fp = []"
    using assms(3) by simp_all
  have t1: "trimStart (ip @ CHR ''.'' # fp) = ip @ CHR ''.'' # fp"
    using isDigit_other(1) [OF x] by (simp add: trimStart_def ip)
  have t2: "trimStart (CHR ''-'' # ip @ CHR ''.'' # fp) = CHR ''-'' # ip @ CHR ''.'' # fp"
    by (simp add: trimStart_def isWhiteSpace_def)
  have s1: "\<not> startsWith (ip @ CHR ''.'' # fp) ''-''" "\<not> startsWith (ip @ CHR ''.'' # fp) ''+''"
      "\<not> startsWith (ip @ CHR ''.'' # fp) ''Infinity''"
    using isDigit_other [OF x] by (simp_all add: ip)
  have dv: "digitsValue [] = 0"
    by (simp add: digitsValue_def)
  show "parseFloat (ip @ ''.'' @ fp) = fl (of_nat (digitsValue (ip @ fp)) / 10 ^ length fp)"
    using assms(1) by (simp add: parseFloat_def t1 s1 tw dw twf dwf dv Let_def)
  show "parseFloat (''-'' @ ip @ ''.'' @ fp) = fl (- (of_nat (digitsValue (ip @ fp)) / 10 ^ length fp))"
    using assms(1) by (simp add: parseFloat_def t2 s1 tw dw twf dwf dv Let_def)
qed

lemma toFixed2_shape:
  assumes "\<bar>r\<bar> < 10 ^ 21"
  shows "\<exists>ip fp. toFixed 2 (Fin r) = (if r < 0 then ''-'' else '''') @ ip @ ''.'' @ fp \<and>
           ip \<noteq> [] \<and> (\<forall>c \<in> set ip. isDigit c) \<and> (\<forall>c \<in> set fp. isDigit c) \<and>
           length fp = 2 \<and> digitsValue (ip @ fp) = nat \<lfloor>\<bar>r\<bar> * 100 + 1 / 2\<rfloor>"
proof -
  define n where "n = nat \<lfloor>\<bar>r\<bar> * 100 + 1 / 2\<rfloor>"
  define m where "m = (if length (digits10 n) \<le> 2
                       then replicate (3 - length (digits10 n)) CHR ''0'' @ digits10 n
                       else digits10 n)"
  define ip where "ip = take (length m - 2) m"
  define fp where "fp = drop (length m - 2) m"
  have len: "3 \<le> length m"
    by (simp add: m_def)
  have digits: "\<forall>c \<in> set m. isDigit c"
    by (auto simp add: m_def isDigit_zero digits10_digits)
  have val: "digitsValue m = n"
    by (simp add: m_def digitsValue_zeros digitsValue_digits10)
  have split: "ip @ fp = m"
    by (simp add: ip_def fp_def)
  have "toFixed 2 (Fin r) = (if r < 0 then ''-'' else '''') @ ip @ ''.'' @ fp"
    using assms by (simp add: toFixed_def Let_def ip_def fp_def m_def n_def)
  moreover have "ip \<noteq> []"
    using len by (auto simp add: ip_def)
  moreover have "\<forall>c \<in> set ip. isDigit c" "\<forall>c \<in> set fp. isDigit c"
    using digits by (auto simp add: ip_def fp_def dest: in_set_takeD in_set_dropD)
  moreover have "length fp = 2"
    using len by (simp add: fp_def)
  moreover have "digitsValue (ip @ fp) = nat \<lfloor>\<bar>r\<bar> * 100 + 1 / 2\<rfloor>"
    by (simp add: split val n_def)
  ultimately show ?thesis
    by blast
qed

lemma parseFloat_toFixed2:
  assumes "\<bar>r\<bar> < 10 ^ 21"
  shows "parseFloat (toFixed 2 (Fin r)) = fl (roundCents r)"
proof -
  from toFixed2_shape [OF assms] obtain ip fp where
    s: "toFixed 2 (Fin r) = (if r < 0 then ''-'' else '''') @ ip @ ''.'' @ fp" and
    d: "ip \<noteq> []" "\<forall>c \<in> set ip. isDigit c" "\<forall>c \<in> set fp. isDigit c" and
    l: "length fp = 2" and
    v: "digitsValue (ip @ fp) = nat \<lfloor>\<bar>r\<bar> * 100 + 1 / 2\<rfloor>"
    by blast
  have nonneg: "0 \<le> \<lfloor>\<bar>r\<bar> * 100 + 1 / 2\<rfloor>"
    by simp
  have n: "rat_of_nat (nat \<lfloor>\<bar>r\<bar> * 100 + 1 / 2\<rfloor>) = of_int \<lfloor>\<bar>r\<bar> * 100 + 1 / 2\<rfloor>"
    using nonneg by (simp only: of_nat_nat)
  show ?thesis
  proof (cases "r < 0")
    case True
    with s have "parseFloat (toFixed 2 (Fin r)) = parseFloat (''-'' @ ip @ ''.'' @ fp)"
      by simp
    also have "\<dots> = fl (- (of_nat (digitsValue (ip @ fp)) / 10 ^ length fp))"
      using d by (rule parseFloat_fixed(2))
    also have "\<dots> = fl (roundCents r)"
      using True by (simp only: v l n roundCents_def) simp
    finally show ?thesis .
  next
    case False
    with s have "parseFloat (toFixed 2 (Fin r)) = parseFloat (ip @ ''.'' @ fp)"
      by simp
    also have "\<dots> = fl (of_nat (digitsValue (ip @ fp)) / 10 ^ length fp)"
      using d by (rule parseFloat_fixed(1))
    also have "\<dots> = fl (roundCents r)"
      using False by (simp only: v l n roundCents_def) simp
    finally show ?thesis .
  qed
qed

lemma roundCents_int: "roundCents (of_int n) = of_int n"
proof -
  have "\<lfloor>\<bar>rat_of_int n\<bar> * 100 + 1 / 2\<rfloor> = \<bar>n\<bar> * 100"
    by (rule floor_unique) simp_all
  then show ?thesis
    by (simp add: roundCents_def)
qed

lemma floor_rat_numeral_div:
  "\<lfloor>(numeral a :: rat) / numeral b\<rfloor> = numeral a div numeral b"
  using floor_divide_of_int_eq [of "numeral a" "numeral b", where ?'a = rat] by simp

lemma toFixed_coffee: "toFixed 2 (Fin (- (7 / 2))) = ''-3.50''"
  by (simp add: toFixed_def Let_def floor_rat_numeral_div digits10.simps digitChar_def char_of_eq_iff)

lemma toFixed_salary: "toFixed 2 (Fin 2000) = ''2000.00''"
  by (simp add: toFixed_def Let_def floor_rat_numeral_div digits10.simps digitChar_def char_of_eq_iff)

subsection \<open>Rounding to cents and then to a double\<close>
























section \<open>The Transaction Normalizer\<close>

lemma typeof_string: "typeof v = ''string'' \<longleftrightarrow> (\<exists>s. v = Some (JStr s))"
  by (cases v rule: typeof.cases) simp_all


lemma getProp_field: "tx \<noteq> JNull \<Longrightarrow> getProp tx k = Inr (field tx k)"
  by (cases tx) (simp_all add: field_def)

lemma normalizeEntry_null: "normalizeEntry cur JNull = Inl TypeError"
  by (simp add: normalizeEntry_def bindE_def)

lemma normalizeEntry_string_fields:
  assumes "tx \<noteq> JNull"
    and "field tx ''date'' = Some (JStr d)"
    and "field tx ''description'' = Some (JStr ds)"
  shows "normalizeEntry cur tx =
     (let moneyIn = numberOr0 (field tx ''moneyIn'');
          moneyOut = numberOr0 (field tx ''moneyOut'')
      in if (numLess (Fin 0) moneyIn \<and> numLess (Fin 0) moneyOut) \<or>
            numLess moneyIn (Fin 0) \<or> numLess moneyOut (Fin 0)
         then Inr []
         else Inr [\<lparr> date = trim d,
                     desc = (if trim ds \<noteq> [] then trim ds else ''No Description''),
                     amount = (if numLess (Fin 0) moneyIn then moneyIn else numNeg moneyOut),
                     currency = txCurrency cur (field tx ''currency'') \<rparr>])"
  using assms by (simp add: normalizeEntry_def getProp_field bindE_def Let_def)

lemma normalizeEntry_other_fields:
  assumes "tx \<noteq> JNull"
    and "typeof (field tx ''date'') \<noteq> ''string'' \<or> typeof (field tx ''description'') \<noteq> ''string''"
  shows "normalizeEntry cur tx = Inr []"
  using assms by (auto simp add: normalizeEntry_def getProp_field bindE_def Let_def)

lemma normalizeEntry_kept_nonnull: "normalizeEntry cur tx = Inr ts \<Longrightarrow> tx \<noteq> JNull"
  by (auto simp add: normalizeEntry_null)

lemma normalizer_total_nonnull: "tx \<noteq> JNull \<Longrightarrow> \<exists>ts. normalizeEntry cur tx = Inr ts"
proof (cases "typeof (field tx ''date'') = ''string'' \<and> typeof (field tx ''description'') = ''string''")
  case True
  assume nn: "tx \<noteq> JNull"
  from True obtain d ds where "field tx ''date'' = Some (JStr d)" "field tx ''description'' = Some (JStr ds)"
    by (auto simp add: typeof_string)
  from normalizeEntry_string_fields [OF nn this, of cur] show ?thesis
    by (simp add: Let_def)
next
  case False
  assume nn: "tx \<noteq> JNull"
  from normalizeEntry_other_fields [OF nn, of cur] False show ?thesis
    by auto
qed

lemma normalizeEntry_error: "normalizeEntry cur tx = Inl e \<Longrightarrow> tx = JNull \<and> e = TypeError"
  using normalizer_total_nonnull [of tx cur] normalizeEntry_null [of cur] by (cases "tx = JNull") auto

lemma flatMapE_throws_iff:
  "(\<exists>e. flatMapE (normalizeEntry cur) xs = Inl e) \<longleftrightarrow> JNull \<in> set xs"
proof (induction xs)
  case Nil
  show ?case by simp
next
  case (Cons x xs)
  show ?case
  proof (cases "x = JNull")
    case True
    then show ?thesis by (simp add: normalizeEntry_null)
  next
    case False
    then obtain ts where "normalizeEntry cur x = Inr ts"
      using normalizer_total_nonnull by blast
    with False Cons.IH show ?thesis
      by (auto split: sum.splits)
  qed
qed

lemma normalizeTransactions_throws_iff:
  "(\<exists>e. normalizeTransactions cur raw = Inl e) \<longleftrightarrow> (\<exists>xs. raw = Some (JArr xs) \<and> JNull \<in> set xs)"
proof (cases "\<exists>xs. raw = Some (JArr xs)")
  case True
  then obtain xs where "raw = Some (JArr xs)"
    by blast
  then show ?thesis
    using flatMapE_throws_iff [of cur xs] by (simp add: normalizeTransactions_def)
next
  case False
  then have "normalizeTransactions cur raw = Inr []"
    by (auto simp add: normalizeTransactions_def split: option.splits json.splits)
  with False show ?thesis
    by simp
qed

lemma positive_numberOr0:
  "numLess (Fin 0) (numberOr0 v) \<longleftrightarrow> (\<exists>a. v = Some (JNum a) \<and> numLess (Fin 0) a)"
  by (cases v rule: numberOr0.cases) simp_all

lemma negative_numberOr0:
  "numLess (numberOr0 v) (Fin 0) \<longleftrightarrow> (\<exists>a. v = Some (JNum a) \<and> numLess a (Fin 0))"
  by (cases v rule: numberOr0.cases) simp_all

text \<open>
  For an entry other than null, the Normalizer drops the entry exactly when its date is
  not a string, or its description is not a string, or moneyIn and moneyOut are both
  positive numbers, or one of them is a negative number; every other entry yields exactly
  one Transaction. A moneyIn or moneyOut that is not a number resolves to 0, which is
  neither positive nor negative.
\<close>

lemma normalizer_drops_nonnull:
  assumes "tx \<noteq> JNull"
  shows "(normalizeEntry cur tx = Inr [] \<longleftrightarrow>
            typeof (field tx ''date'') \<noteq> ''string'' \<or>
            typeof (field tx ''description'') \<noteq> ''string'' \<or>
            (\<exists>a b. field tx ''moneyIn'' = Some (JNum a) \<and> field tx ''moneyOut'' = Some (JNum b) \<and>
               numLess (Fin 0) a \<and> numLess (Fin 0) b) \<or>
            (\<exists>a. field tx ''moneyIn'' = Some (JNum a) \<and> numLess a (Fin 0)) \<or>
            (\<exists>b. field tx ''moneyOut'' = Some (JNum b) \<and> numLess b (Fin 0)))
         \<and> (normalizeEntry cur tx \<noteq> Inr [] \<longrightarrow> (\<exists>t. normalizeEntry cur tx = Inr [t]))"
proof (cases "typeof (field tx ''date'') = ''string'' \<and> typeof (field tx ''description'') = ''string''")
  case True
  then obtain d ds where "field tx ''date'' = Some (JStr d)" "field tx ''description'' = Some (JStr ds)"
    by (auto simp add: typeof_string)
  from normalizeEntry_string_fields [OF assms this, of cur] True
  have "(normalizeEntry cur tx = Inr [] \<longleftrightarrow>
            (numLess (Fin 0) (numberOr0 (field tx ''moneyIn'')) \<and>
             numLess (Fin 0) (numberOr0 (field tx ''moneyOut''))) \<or>
            numLess (numberOr0 (field tx ''moneyIn'')) (Fin 0) \<or>
            numLess (numberOr0 (field tx ''moneyOut'')) (Fin 0))
         \<and> (normalizeEntry cur tx \<noteq> Inr [] \<longrightarrow> (\<exists>t. normalizeEntry cur tx = Inr [t]))"
    by (simp add: Let_def)
  with True show ?thesis
    by (simp only: positive_numberOr0 negative_numberOr0) blast
next
  case False
  with normalizeEntry_other_fields [OF assms] show ?thesis
    by auto
qed

lemma normalizer_examples:
  "normalizeEntry None ambiguousEntry = Inr []"
  "normalizeEntry None negativeEntry = Inr []"
  "normalizeEntry None undatedEntry = Inr []"
  "normalizeEntry None (JStr ''Coffee Shop'') = Inr []"
  "normalizeEntry None (JObj []) = Inr []"
  "normalizeEntry None coffeeEntry = Inr [coffeeTransaction]"
  "normalizeEntry None salaryEntry = Inr [salaryTransaction]"
  by (simp_all add: ambiguousEntry_def negativeEntry_def undatedEntry_def coffeeEntry_def salaryEntry_def
      coffeeTransaction_def salaryTransaction_def normalizeEntry_def bindE_def txCurrency_def
      trim_def isWhiteSpace_def)

text \<open>
  C1 at the failing input. Every raw entry should be dropped or yield exactly one
  Transaction. The null entry does neither: reading its date throws a TypeError before
  any check, which ends the Normalizer and the assembly, so that the valid entry beside
  it is lost as well. Every other entry is handled as the claim says
  (\<open>normalizer_drops_nonnull\<close>, \<open>normalizer_examples\<close>).
\<close>

theorem null_entry_not_dropped:
  "normalizeEntry None JNull = Inl TypeError
   \<and> normalizeEntry None JNull \<noteq> Inr []
   \<and> (\<forall>t. normalizeEntry None JNull \<noteq> Inr [t])
   \<and> normalizeEntry None salaryEntry = Inr [salaryTransaction]
   \<and> normalizeTransactions None (Some (JArr [JNull, salaryEntry])) = Inl TypeError
   \<and> assemble (JObj [(''transactions'', JArr [JNull, salaryEntry])]) = Inl TypeError"
proof -
  have kept: "normalizeEntry None salaryEntry = Inr [salaryTransaction]"
    by (simp add: salaryEntry_def salaryTransaction_def normalizeEntry_def bindE_def
        txCurrency_def trim_def isWhiteSpace_def)
  have n: "normalizeTransactions None (Some (JArr [JNull, salaryEntry])) = Inl TypeError"
    by (simp add: normalizeTransactions_def normalizeEntry_null)
  have a: "assemble (JObj [(''transactions'', JArr [JNull, salaryEntry])]) = Inl TypeError"
    by (simp add: assemble_def bindE_def n)
  show ?thesis
    by (simp add: normalizeEntry_null kept n a)
qed



text \<open>
  C4, as the code has it. Every Transaction that the Normalizer emits has a date with no
  surrounding white space (the trimmed raw date, empty when the raw date is only white
  space: no placeholder is put there), a description that is not empty and has no
  surrounding white space (the placeholder when the raw description trims to empty), and
  as currency the entry's own currency when that is a string (the empty string too),
  otherwise the statement's currency when that is truthy, otherwise the dollar sign. The
  currency is a non-empty string when the entry's currency is a non-empty string, and
  when it is not a string and the statement's currency is falsy or a string.
\<close>

theorem emitted_fields:
  assumes "normalizeEntry cur tx = Inr [t]"
  shows "date t = trim (stringOf (field tx ''date'')) \<and> trimmed (date t)
         \<and> desc t \<noteq> [] \<and> trimmed (desc t)
         \<and> desc t = (if trim (stringOf (field tx ''description'')) \<noteq> []
                      then trim (stringOf (field tx ''description'')) else ''No Description'')
         \<and> currency t =
             (if typeof (field tx ''currency'') = ''string'' then the (field tx ''currency'')
              else if truthy cur then the cur else JStr ''$'')
         \<and> (typeof (field tx ''currency'') = ''string'' \<and> stringOf (field tx ''currency'') \<noteq> [] \<longrightarrow>
              currency t = JStr (stringOf (field tx ''currency'')))
         \<and> (typeof (field tx ''currency'') \<noteq> ''string'' \<and> (\<not> truthy cur \<or> typeof cur = ''string'') \<longrightarrow>
              (\<exists>s. currency t = JStr s \<and> s \<noteq> []))"
proof -
  have nn: "tx \<noteq> JNull"
    using assms by (rule normalizeEntry_kept_nonnull)
  have "typeof (field tx ''date'') = ''string'' \<and> typeof (field tx ''description'') = ''string''"
    using assms normalizeEntry_other_fields [OF nn, of cur] by auto
  then obtain d ds where f: "field tx ''date'' = Some (JStr d)" "field tx ''description'' = Some (JStr ds)"
    by (auto simp add: typeof_string)
  from normalizeEntry_string_fields [OF nn f, of cur] assms
  have t: "t = \<lparr> date = trim d,
                 desc = (if trim ds \<noteq> [] then trim ds else ''No Description''),
                 amount = (if numLess (Fin 0) (numberOr0 (field tx ''moneyIn''))
                           then numberOr0 (field tx ''moneyIn'')
                           else numNeg (numberOr0 (field tx ''moneyOut''))),
                 currency = txCurrency cur (field tx ''currency'') \<rparr>"
    by (auto simp add: Let_def split: if_splits)
  have d1: "date t = trim (stringOf (field tx ''date''))" and d2: "trimmed (date t)"
    using t f by (simp_all add: trimmed_trim)
  have e1: "desc t \<noteq> []" and e2: "trimmed (desc t)"
    and e3: "desc t = (if trim (stringOf (field tx ''description'')) \<noteq> []
                      then trim (stringOf (field tx ''description'')) else ''No Description'')"
    using t f by (simp_all add: trimmed_trim trimmed_placeholder)
  have c1: "currency t =
             (if typeof (field tx ''currency'') = ''string'' then the (field tx ''currency'')
              else if truthy cur then the cur else JStr ''$'')"
    using t by (simp add: txCurrency_def)
  have c2: "typeof (field tx ''currency'') = ''string'' \<and> stringOf (field tx ''currency'') \<noteq> [] \<longrightarrow>
              currency t = JStr (stringOf (field tx ''currency''))"
    using c1 by (auto simp add: typeof_string)
  have c3: "typeof (field tx ''currency'') \<noteq> ''string'' \<and> (\<not> truthy cur \<or> typeof cur = ''string'') \<longrightarrow>
              (\<exists>s. currency t = JStr s \<and> s \<noteq> [])"
    using c1 by (auto simp add: typeof_string)
  from d1 d2 e1 e2 e3 c1 c2 c3 show ?thesis
    by blast
qed

theorem emitted_fields_witness:
  "normalizeEntry None coffeeEntry = Inr [coffeeTransaction]
   \<and> date coffeeTransaction = ''01-01-2024'' \<and> trimmed (date coffeeTransaction)
   \<and> desc coffeeTransaction \<noteq> [] \<and> trimmed (desc coffeeTransaction)
   \<and> typeof (field coffeeEntry ''currency'') = ''string''
   \<and> stringOf (field coffeeEntry ''currency'') \<noteq> []
   \<and> currency coffeeTransaction = JStr ''$''"
proof -
  have kept: "normalizeEntry None coffeeEntry = Inr [coffeeTransaction]"
    by (simp add: coffeeEntry_def coffeeTransaction_def normalizeEntry_def bindE_def
        txCurrency_def trim_def isWhiteSpace_def)
  from emitted_fields [OF kept] kept show ?thesis
    by (simp add: coffeeEntry_def coffeeTransaction_def field_def)
qed

theorem emitted_fields_counterexample:
  "normalizeEntry None blankEntry =
     Inr [\<lparr> date = [], desc = ''x'', amount = Fin 0, currency = JStr [] \<rparr>]"
  by (simp add: blankEntry_def normalizeEntry_def bindE_def txCurrency_def trim_def isWhiteSpace_def)







lemma assemble_nonnull:
  assumes "parsed \<noteq> JNull"
  shows "assemble parsed =
     (case normalizeTransactions (field parsed ''currency'') (field parsed ''transactions'') of
        Inl e \<Rightarrow> Inl e
      | Inr txs \<Rightarrow>
          Inr \<lparr> name = field parsed ''name'',
                address = field parsed ''address'',
                statementDate = field parsed ''date'',
                startingBalance = field parsed ''startingBalance'',
                endingBalance = field parsed ''endingBalance'',
                transactions = txs,
                reconciles = reconcile (field parsed ''startingBalance'') (field parsed ''endingBalance'') txs,
                statementCurrency = Some (resolveCurrency (field parsed ''currency'') txs),
                error = None \<rparr>)"
  using assms by (simp add: assemble_def bindE_def getProp_field)

lemma assemble_null: "assemble JNull = Inl TypeError"
  by (simp add: assemble_def bindE_def)

lemma assemble_no_error: "assemble parsed = Inr r \<Longrightarrow> error r = None"
  by (cases "parsed = JNull") (auto simp add: assemble_null assemble_nonnull split: sum.splits)

lemma assemble_throws_iff:
  "(\<exists>e. assemble parsed = Inl e) \<longleftrightarrow>
     parsed = JNull \<or> (\<exists>xs. field parsed ''transactions'' = Some (JArr xs) \<and> JNull \<in> set xs)"
proof (cases "parsed = JNull")
  case True
  then show ?thesis
    by (simp add: assemble_null)
next
  case False
  have "(\<exists>e. assemble parsed = Inl e) \<longleftrightarrow>
      (\<exists>e. normalizeTransactions (field parsed ''currency'') (field parsed ''transactions'') = Inl e)"
    by (simp add: assemble_nonnull [OF False] split: sum.splits)
  with False show ?thesis
    by (simp add: normalizeTransactions_throws_iff)
qed

text \<open>
  C5 at the failing input. A null element among the raw transactions makes the read of
  its date throw a TypeError: the Normalizer does not drop the entry, the call ends with
  the error, the entry before it is lost with it, and the request returns the error
  result. Without null elements the Normalizer never throws (\<open>flatMapE_throws_iff\<close>).
\<close>

theorem null_entry_throws:
  "normalizeEntry None JNull = Inl TypeError
   \<and> normalizeTransactions None (Some (JArr [coffeeEntry, JNull])) = Inl TypeError
   \<and> assemble (JObj [(''transactions'', JArr [coffeeEntry, JNull])]) = Inl TypeError
   \<and> extractStatementDetails (\<lambda>c. Inr (JObj [(''transactions'', JArr [coffeeEntry, JNull])])) (Some ''{}'')
       = errorResult"
proof -
  have kept: "normalizeEntry None coffeeEntry = Inr [coffeeTransaction]"
    by (simp add: coffeeEntry_def coffeeTransaction_def normalizeEntry_def bindE_def
        txCurrency_def trim_def isWhiteSpace_def)
  have n: "normalizeTransactions None (Some (JArr [coffeeEntry, JNull])) = Inl TypeError"
    by (simp add: normalizeTransactions_def kept normalizeEntry_null)
  have a: "assemble (JObj [(''transactions'', JArr [coffeeEntry, JNull])]) = Inl TypeError"
    by (simp add: assemble_nonnull field_def n)
  show ?thesis
    by (simp add: normalizeEntry_null n a extractStatementDetails_def bindE_def)
qed

section \<open>The Reconciliation Engine\<close>



lemma reconcile_examples:
  "reconcile (Some (JNum (Fin 100))) (Some (JNum (Fin 75)))
     [\<lparr> date = ''01-01-2024'', desc = ''Rent'', amount = Fin (- 25) \<rparr>] = Some True"
  "reconcile (Some (JNum (Fin 100))) (Some (JNum (Fin 80)))
     [\<lparr> date = ''01-01-2024'', desc = ''Rent'', amount = Fin (- 25) \<rparr>] = Some False"
  "reconcile (Some JNull) (Some (JNum (Fin 80)))
     [\<lparr> date = ''01-01-2024'', desc = ''Rent'', amount = Fin (- 25) \<rparr>] = None"
  "reconcile None (Some (JNum (Fin 80))) [] = None"
proof -
  have sum: "numAdd (Fin 100) (sumTx [\<lparr> date = ''01-01-2024'', desc = ''Rent'', amount = Fin (- 25) \<rparr>]) = Fin 75"
    by (simp add: sumTx_def fl_numeral fl_neg_numeral)
  have r75: "parseFloat (toFixed 2 (Fin 75)) = Fin 75"
    using parseFloat_toFixed2 [of 75] roundCents_int [of 75] by (simp add: fl_numeral)
  have r80: "parseFloat (toFixed 2 (Fin 80)) = Fin 80"
    using parseFloat_toFixed2 [of 80] roundCents_int [of 80] by (simp add: fl_numeral)
  show "reconcile (Some (JNum (Fin 100))) (Some (JNum (Fin 75)))
     [\<lparr> date = ''01-01-2024'', desc = ''Rent'', amount = Fin (- 25) \<rparr>] = Some True"
    by (simp add: reconcile_def sum r75)
  show "reconcile (Some (JNum (Fin 100))) (Some (JNum (Fin 80)))
     [\<lparr> date = ''01-01-2024'', desc = ''Rent'', amount = Fin (- 25) \<rparr>] = Some False"
    by (simp add: reconcile_def sum r75 r80)
  show "reconcile (Some JNull) (Some (JNum (Fin 80)))
     [\<lparr> date = ''01-01-2024'', desc = ''Rent'', amount = Fin (- 25) \<rparr>] = None"
    by (simp add: reconcile_def)
  show "reconcile None (Some (JNum (Fin 80))) [] = None"
    by (simp add: reconcile_def)
qed

section \<open>The Statement Assembler\<close>

lemma assemble_no_properties:
  assumes "v \<noteq> JNull" and "\<forall>fs. v \<noteq> JObj fs"
  shows "assemble v =
     Inr \<lparr> name = None, address = None, statementDate = None,
           startingBalance = None, endingBalance = None,
           transactions = [], reconciles = None, statementCurrency = Some (JStr ''$''),
           error = None \<rparr>"
  using assms
  by (cases v) (simp_all add: assemble_def bindE_def normalizeTransactions_def reconcile_def resolveCurrency_def)

text \<open>
  C6, as the code has it. When the completion's content is null or empty, or
  \<open>JSON.parse\<close> throws on it, or it parses to null, the result is the error string with
  every other field at its default: name, address, date and both balances null, no
  transactions, reconciles null; and every result that carries an error string is this
  one. Content that parses to a number, a string, a boolean or an array is not a failure:
  it is destructured like an object without the properties, and the result carries no
  error string, its name, address, date and balances are undefined, its transactions are
  empty, reconciles is null and the currency is \<open>$\<close>.
\<close>

theorem extraction_failure_defaults:
  "(content = None \<or> content = Some [] \<or>
    (\<exists>c e. content = Some c \<and> JSON_parse c = Inl e) \<or>
    (\<exists>c. content = Some c \<and> JSON_parse c = Inr JNull) \<longrightarrow>
      extractStatementDetails JSON_parse content =
        \<lparr> name = Some JNull, address = Some JNull, statementDate = Some JNull,
          startingBalance = Some JNull, endingBalance = Some JNull,
          transactions = [], reconciles = None, statementCurrency = None,
          error = Some ''Failed to extract statement details'' \<rparr>)
   \<and> (error (extractStatementDetails JSON_parse content) \<noteq> None \<longrightarrow>
      extractStatementDetails JSON_parse content =
        \<lparr> name = Some JNull, address = Some JNull, statementDate = Some JNull,
          startingBalance = Some JNull, endingBalance = Some JNull,
          transactions = [], reconciles = None, statementCurrency = None,
          error = Some ''Failed to extract statement details'' \<rparr>)
   \<and> (\<forall>c v. content = Some c \<and> c \<noteq> [] \<and> JSON_parse c = Inr v \<and> v \<noteq> JNull \<and> (\<forall>fs. v \<noteq> JObj fs) \<longrightarrow>
      extractStatementDetails JSON_parse content =
        \<lparr> name = None, address = None, statementDate = None,
          startingBalance = None, endingBalance = None,
          transactions = [], reconciles = None, statementCurrency = Some (JStr ''$''),
          error = None \<rparr>)"
proof -
  let ?failed = "\<lparr> name = Some JNull, address = Some JNull, statementDate = Some JNull,
          startingBalance = Some JNull, endingBalance = Some JNull,
          transactions = [], reconciles = None, statementCurrency = None,
          error = Some ''Failed to extract statement details'' \<rparr>"
  have a: "(content = None \<or> content = Some [] \<or>
      (\<exists>c e. content = Some c \<and> JSON_parse c = Inl e) \<or>
      (\<exists>c. content = Some c \<and> JSON_parse c = Inr JNull) \<longrightarrow>
        extractStatementDetails JSON_parse content = ?failed)
     \<and> (error (extractStatementDetails JSON_parse content) \<noteq> None \<longrightarrow>
        extractStatementDetails JSON_parse content = ?failed)"
  proof (cases content)
    case None
    then show ?thesis
      by (simp add: extractStatementDetails_def errorResult_def)
  next
    case (Some c)
    show ?thesis
    proof (cases "c = []")
      case True
      with Some show ?thesis
        by (simp add: extractStatementDetails_def errorResult_def)
    next
      case False
      show ?thesis
      proof (cases "JSON_parse c")
        case (Inl e)
        with Some False show ?thesis
          by (simp add: extractStatementDetails_def errorResult_def bindE_def)
      next
        case (Inr parsed)
        show ?thesis
        proof (cases "assemble parsed")
          case (Inl e)
          with Some False Inr show ?thesis
            by (simp add: extractStatementDetails_def errorResult_def bindE_def assemble_null)
        next
          case r: (Inr r)
          then have "error r = None" "parsed \<noteq> JNull"
            by (auto simp add: assemble_no_error assemble_null)
          with Some False Inr r show ?thesis
            by (simp add: extractStatementDetails_def bindE_def)
        qed
      qed
    qed
  qed
  have b: "\<forall>c v. content = Some c \<and> c \<noteq> [] \<and> JSON_parse c = Inr v \<and> v \<noteq> JNull \<and> (\<forall>fs. v \<noteq> JObj fs) \<longrightarrow>
      extractStatementDetails JSON_parse content =
        \<lparr> name = None, address = None, statementDate = None,
          startingBalance = None, endingBalance = None,
          transactions = [], reconciles = None, statementCurrency = Some (JStr ''$''),
          error = None \<rparr>"
    by (simp add: extractStatementDetails_def bindE_def assemble_no_properties)
  from a b show ?thesis
    by blast
qed

theorem extraction_failure_defaults_witness:
  "extractStatementDetails parseSample None =
        \<lparr> name = Some JNull, address = Some JNull, statementDate = Some JNull,
          startingBalance = Some JNull, endingBalance = Some JNull,
          transactions = [], reconciles = None, statementCurrency = None,
          error = Some ''Failed to extract statement details'' \<rparr>
   \<and> extractStatementDetails parseSample (Some ''not json'') =
        \<lparr> name = Some JNull, address = Some JNull, statementDate = Some JNull,
          startingBalance = Some JNull, endingBalance = Some JNull,
          transactions = [], reconciles = None, statementCurrency = None,
          error = Some ''Failed to extract statement details'' \<rparr>
   \<and> extractStatementDetails parseSample (Some ''null'') =
        \<lparr> name = Some JNull, address = Some JNull, statementDate = Some JNull,
          startingBalance = Some JNull, endingBalance = Some JNull,
          transactions = [], reconciles = None, statementCurrency = None,
          error = Some ''Failed to extract statement details'' \<rparr>
   \<and> extractStatementDetails parseSample (Some ''[]'') =
        \<lparr> name = None, address = None, statementDate = None,
          startingBalance = None, endingBalance = None,
          transactions = [], reconciles = None, statementCurrency = Some (JStr ''$''),
          error = None \<rparr>"
proof -
  let ?failed = "\<lparr> name = Some JNull, address = Some JNull, statementDate = Some JNull,
          startingBalance = Some JNull, endingBalance = Some JNull,
          transactions = [], reconciles = None, statementCurrency = None,
          error = Some ''Failed to extract statement details'' \<rparr>"
  from extraction_failure_defaults [of None parseSample]
  have n: "extractStatementDetails parseSample None = ?failed"
    by blast
  have "\<exists>c e. Some ''not json'' = Some c \<and> parseSample c = Inl e"
    by (simp add: parseSample_def)
  with extraction_failure_defaults [of "Some ''not json''" parseSample]
  have s: "extractStatementDetails parseSample (Some ''not json'') = ?failed"
    by blast
  have "\<exists>c. Some ''null'' = Some c \<and> parseSample c = Inr JNull"
    by (simp add: parseSample_def)
  with extraction_failure_defaults [of "Some ''null''" parseSample]
  have p: "extractStatementDetails parseSample (Some ''null'') = ?failed"
    by blast
  have "Some ''[]'' = Some ''[]'' \<and> ''[]'' \<noteq> [] \<and> parseSample ''[]'' = Inr (JArr []) \<and>
      JArr [] \<noteq> JNull \<and> (\<forall>fs. JArr [] \<noteq> JObj fs)"
    by (simp add: parseSample_def)
  with extraction_failure_defaults [of "Some ''[]''" parseSample]
  have q: "extractStatementDetails parseSample (Some ''[]'') =
        \<lparr> name = None, address = None, statementDate = None,
          startingBalance = None, endingBalance = None,
          transactions = [], reconciles = None, statementCurrency = Some (JStr ''$''),
          error = None \<rparr>"
    by blast
  from n s p q show ?thesis
    by blast
qed

theorem top_level_number_no_error:
  "extractStatementDetails parseSample (Some ''5'') =
     \<lparr> name = None, address = None, statementDate = None,
       startingBalance = None, endingBalance = None,
       transactions = [], reconciles = None, statementCurrency = Some (JStr ''$''),
       error = None \<rparr>"
  by (simp add: extractStatementDetails_def parseSample_def bindE_def assemble_no_properties)

lemma extraction_error_iff:
  "error (extractStatementDetails JSON_parse content) \<noteq> None \<longleftrightarrow>
     content = None \<or> content = Some [] \<or>
     (\<exists>c e. content = Some c \<and> JSON_parse c = Inl e) \<or>
     (\<exists>c. content = Some c \<and> JSON_parse c = Inr JNull) \<or>
     (\<exists>c parsed xs. content = Some c \<and> JSON_parse c = Inr parsed \<and>
        field parsed ''transactions'' = Some (JArr xs) \<and> JNull \<in> set xs)"
proof (cases content)
  case None
  then show ?thesis
    by (simp add: extractStatementDetails_def errorResult_def)
next
  case (Some c)
  show ?thesis
  proof (cases "c = []")
    case True
    with Some show ?thesis
      by (simp add: extractStatementDetails_def errorResult_def)
  next
    case False
    show ?thesis
    proof (cases "JSON_parse c")
      case (Inl e)
      with Some False show ?thesis
        by (simp add: extractStatementDetails_def errorResult_def bindE_def)
    next
      case (Inr parsed)
      show ?thesis
      proof (cases "assemble parsed")
        case (Inl e)
        then have "parsed = JNull \<or> (\<exists>xs. field parsed ''transactions'' = Some (JArr xs) \<and> JNull \<in> set xs)"
          using assemble_throws_iff [of parsed] by blast
        with Some False Inr Inl show ?thesis
          by (auto simp add: extractStatementDetails_def errorResult_def bindE_def)
      next
        case r: (Inr r)
        then have "error r = None"
          by (rule assemble_no_error)
        moreover have "\<not> (parsed = JNull \<or> (\<exists>xs. field parsed ''transactions'' = Some (JArr xs) \<and> JNull \<in> set xs))"
          using assemble_throws_iff [of parsed] r by simp
        ultimately show ?thesis
          using Some False Inr r by (auto simp add: extractStatementDetails_def bindE_def)
      qed
    qed
  qed
qed

text \<open>
  C9, as the code has it. The Assembler passes name, address and date through to the
  result as they are read, whatever their type: a string or null stays as it is, and so
  does a value of any other type; a balance that is a number passes through unchanged.
\<close>

theorem header_pass_through:
  assumes "assemble parsed = Inr r"
  shows "name r = field parsed ''name''
         \<and> address r = field parsed ''address''
         \<and> statementDate r = field parsed ''date''
         \<and> (typeof (field parsed ''startingBalance'') = ''number'' \<longrightarrow>
              startingBalance r = field parsed ''startingBalance'')
         \<and> (typeof (field parsed ''endingBalance'') = ''number'' \<longrightarrow>
              endingBalance r = field parsed ''endingBalance'')"
proof -
  have "parsed \<noteq> JNull"
    using assms by (auto simp add: assemble_null)
  from assemble_nonnull [OF this] assms show ?thesis
    by (auto split: sum.splits)
qed

theorem header_pass_through_witness:
  "assemble (JObj [(''name'', JNum (Fin 5)), (''startingBalance'', JNum (Fin 100))]) =
     Inr \<lparr> name = Some (JNum (Fin 5)), address = None, statementDate = None,
           startingBalance = Some (JNum (Fin 100)), endingBalance = None,
           transactions = [], reconciles = None, statementCurrency = Some (JStr ''$''),
           error = None \<rparr>
   \<and> field (JObj [(''name'', JNum (Fin 5)), (''startingBalance'', JNum (Fin 100))]) ''name''
       = Some (JNum (Fin 5))
   \<and> typeof (field (JObj [(''name'', JNum (Fin 5)), (''startingBalance'', JNum (Fin 100))])
       ''startingBalance'') = ''number''
   \<and> field (JObj [(''name'', JNum (Fin 5)), (''startingBalance'', JNum (Fin 100))]) ''startingBalance''
       = Some (JNum (Fin 100))"
proof -
  have a: "assemble (JObj [(''name'', JNum (Fin 5)), (''startingBalance'', JNum (Fin 100))]) =
     Inr \<lparr> name = Some (JNum (Fin 5)), address = None, statementDate = None,
           startingBalance = Some (JNum (Fin 100)), endingBalance = None,
           transactions = [], reconciles = None, statementCurrency = Some (JStr ''$''),
           error = None \<rparr>"
    by (simp add: assemble_nonnull field_def normalizeTransactions_def reconcile_def resolveCurrency_def)
  from header_pass_through [OF a] a show ?thesis
    by (simp add: field_def)
qed

theorem header_coercion_counterexample:
  "assemble (JObj [(''name'', JNum (Fin 5)), (''address'', JBool True), (''date'', JArr [])]) =
     Inr \<lparr> name = Some (JNum (Fin 5)), address = Some (JBool True), statementDate = Some (JArr []),
           startingBalance = None, endingBalance = None,
           transactions = [], reconciles = None, statementCurrency = Some (JStr ''$''),
           error = None \<rparr>"
  by (simp add: assemble_nonnull field_def normalizeTransactions_def reconcile_def resolveCurrency_def)

section \<open>The Query/View Filter\<close>



lemma filter_examples:
  "filteredTransactions ''coffee''
     [\<lparr> date = ''01-01-2024'', desc = ''Coffee Shop'', amount = Fin (- (7 / 2)) \<rparr>,
      \<lparr> date = ''02-01-2024'', desc = ''Salary'', amount = Fin 2000 \<rparr>]
   = [\<lparr> date = ''01-01-2024'', desc = ''Coffee Shop'', amount = Fin (- (7 / 2)) \<rparr>]"
  "filteredTransactions ''3.50''
     [\<lparr> date = ''01-01-2024'', desc = ''Coffee Shop'', amount = Fin (- (7 / 2)) \<rparr>,
      \<lparr> date = ''02-01-2024'', desc = ''Salary'', amount = Fin 2000 \<rparr>]
   = [\<lparr> date = ''01-01-2024'', desc = ''Coffee Shop'', amount = Fin (- (7 / 2)) \<rparr>]"
  "filteredTransactions ''zzz''
     [\<lparr> date = ''01-01-2024'', desc = ''Coffee Shop'', amount = Fin (- (7 / 2)) \<rparr>,
      \<lparr> date = ''02-01-2024'', desc = ''Salary'', amount = Fin 2000 \<rparr>]
   = []"
  "pageCount (length (filteredTransactions ''zzz''
     [\<lparr> date = ''01-01-2024'', desc = ''Coffee Shop'', amount = Fin (- (7 / 2)) \<rparr>,
      \<lparr> date = ''02-01-2024'', desc = ''Salary'', amount = Fin 2000 \<rparr>])) 10 = 1"
  by (simp_all add: filteredTransactions_def toLowerCase_def trim_def isWhiteSpace_def lowerChar_def
      char_of_eq_iff toFixed_coffee toFixed_salary pageCount_def)

lemma pageCount_agrees:
  assumes "0 < pageSize" and "pageSize < 2 ^ 53" and "len < 2 ^ 32"
  shows "pageCountNumber len pageSize = Fin (of_int (pageCount len pageSize))"
proof -
  from fl_quotient_ceiling [OF assms] obtain y where
    y: "fl (rat_of_nat len / rat_of_int pageSize) = Fin y"
      "\<lceil>y\<rceil> = \<lceil>rat_of_nat len / rat_of_int pageSize\<rceil>"
    by blast
  have "numDiv (Fin (of_nat len)) (Fin (of_int pageSize)) = Fin y"
    using assms(1) y(1) by simp
  then show ?thesis
    using y(2) by (simp add: pageCountNumber_def pageCount_def Let_def)
qed

lemma slice_page:
  assumes "0 < pageSize" and "0 < page"
  shows "paginatedTransactions xs page pageSize =
           take (nat pageSize) (drop (nat ((page - 1) * pageSize)) xs)"
proof -
  define a where "a = (page - 1) * pageSize"
  have a0: "0 \<le> a"
    using assms by (simp add: a_def)
  have b: "page * pageSize = a + pageSize"
    by (simp add: a_def algebra_simps)
  have b0: "0 \<le> a + pageSize"
    using a0 assms by simp
  show ?thesis
  proof (cases "a \<le> int (length xs)")
    case True
    then have "take (nat (min (a + pageSize) (int (length xs)) - a)) (drop (nat a) xs) =
        take (nat pageSize) (drop (nat a) xs)"
      using a0 assms by (cases "a + pageSize \<le> int (length xs)") (simp_all add: min_def)
    with True a0 b0 show ?thesis
      by (simp add: paginatedTransactions_def slice_def b Let_def a_def [symmetric] min_def)
  next
    case False
    then have "drop (nat a) xs = []"
      by simp
    with False a0 b0 show ?thesis
      by (simp add: paginatedTransactions_def slice_def b Let_def a_def [symmetric] min_def)
  qed
qed

lemma ceil_div:
  fixes n ps :: int
  assumes "0 < ps"
  shows "\<lceil>rat_of_int n / rat_of_int ps\<rceil> = (n + ps - 1) div ps"
proof (rule ceiling_unique)
  define q where "q = (n + ps - 1) div ps"
  define r where "r = (n + ps - 1) mod ps"
  have eq: "n + ps - 1 = q * ps + r"
    by (simp add: q_def r_def)
  have r: "0 \<le> r" "r < ps"
    using assms by (simp_all add: r_def)
  have lo: "(q - 1) * ps < n"
    using eq r by (simp add: algebra_simps)
  have hi: "n \<le> q * ps"
    using eq r by (simp add: algebra_simps)
  have "rat_of_int ((q - 1) * ps) < rat_of_int n"
    using lo by (simp only: of_int_less_iff)
  then show "rat_of_int ((n + ps - 1) div ps) - 1 < rat_of_int n / rat_of_int ps"
    using assms by (simp add: q_def [symmetric] pos_less_divide_eq)
  have "rat_of_int n \<le> rat_of_int (q * ps)"
    using hi by (simp only: of_int_le_iff)
  then show "rat_of_int n / rat_of_int ps \<le> rat_of_int ((n + ps - 1) div ps)"
    using assms by (simp add: q_def [symmetric] pos_divide_le_eq)
qed

text \<open>
  C8. For a positive page size and a positive page number, pageCount is the ceiling of
  the number of filtered transactions over the page size, and 1 when there is none (the
  expression computed on numbers gives the same for a page size below \<open>2\<^sup>5\<^sup>3\<close>); the
  page is the part of the filtered list from index (page - 1) * pageSize, inclusive, to
  index page * pageSize, exclusive, cut at the end of the list. With 12 transactions and
  pages of 10 there are 2 pages, and page 2 holds the last 2.
\<close>

theorem pagination:
  assumes "0 < pageSize" and "0 < page"
  shows "pageCount (length xs) pageSize =
           (if xs = [] then 1 else \<lceil>rat_of_nat (length xs) / rat_of_int pageSize\<rceil>)
         \<and> pageCount (length xs) pageSize = max 1 ((int (length xs) + pageSize - 1) div pageSize)
         \<and> (pageSize < 2 ^ 53 \<and> length xs < 2 ^ 32 \<longrightarrow>
               pageCountNumber (length xs) pageSize = Fin (of_int (pageCount (length xs) pageSize)))
         \<and> paginatedTransactions xs page pageSize =
             take (nat pageSize) (drop (nat ((page - 1) * pageSize)) xs)
         \<and> length (paginatedTransactions xs page pageSize) =
             nat (min pageSize (int (length xs) - (page - 1) * pageSize))
         \<and> (\<forall>i < length (paginatedTransactions xs page pageSize).
               paginatedTransactions xs page pageSize ! i = xs ! (nat ((page - 1) * pageSize) + i))
         \<and> (length xs = 12 \<longrightarrow>
               pageCount (length xs) 10 = 2 \<and> paginatedTransactions xs 2 10 = drop 10 xs \<and>
               length (paginatedTransactions xs 2 10) = 2)"
proof -
  let ?n = "int (length xs)"
  let ?a = "(page - 1) * pageSize"
  have a0: "0 \<le> ?a"
    using assms by simp
  have ceil: "\<lceil>rat_of_nat (length xs) / rat_of_int pageSize\<rceil> = (?n + pageSize - 1) div pageSize"
    using ceil_div [OF assms(1), of ?n] by simp
  have pos: "xs \<noteq> [] \<Longrightarrow> 1 \<le> (?n + pageSize - 1) div pageSize"
  proof -
    assume "xs \<noteq> []"
    then have "pageSize \<le> ?n + pageSize - 1"
      by (cases xs) simp_all
    then have "pageSize div pageSize \<le> (?n + pageSize - 1) div pageSize"
      using assms(1) by (intro zdiv_mono1) simp_all
    with assms(1) show ?thesis
      by simp
  qed
  have empty: "xs = [] \<Longrightarrow> (?n + pageSize - 1) div pageSize = 0"
    using assms(1) by simp
  have c1: "pageCount (length xs) pageSize =
           (if xs = [] then 1 else \<lceil>rat_of_nat (length xs) / rat_of_int pageSize\<rceil>)"
  proof (cases "xs = []")
    case True
    then show ?thesis
      by (simp add: pageCount_def)
  next
    case False
    with pos have "(?n + pageSize - 1) div pageSize \<noteq> 0"
      by simp
    with False show ?thesis
      by (simp add: pageCount_def Let_def ceil)
  qed
  have c2: "pageCount (length xs) pageSize = max 1 ((?n + pageSize - 1) div pageSize)"
    using c1 ceil pos empty by (cases "xs = []") (simp_all add: max_def)
  have c3: "paginatedTransactions xs page pageSize = take (nat pageSize) (drop (nat ?a) xs)"
    using assms by (rule slice_page)
  have c4: "length (paginatedTransactions xs page pageSize) = nat (min pageSize (?n - ?a))"
    using a0 assms(1) by (simp add: c3 min_def) linarith
  have c5: "\<forall>i < length (paginatedTransactions xs page pageSize).
               paginatedTransactions xs page pageSize ! i = xs ! (nat ?a + i)"
  proof (intro allI impI)
    fix i
    assume i: "i < length (paginatedTransactions xs page pageSize)"
    then have "nat ?a \<le> length xs"
      by (simp add: c3) arith
    with i show "paginatedTransactions xs page pageSize ! i = xs ! (nat ?a + i)"
      by (simp add: c3)
  qed
  have c6: "length xs = 12 \<longrightarrow>
               pageCount (length xs) 10 = 2 \<and> paginatedTransactions xs 2 10 = drop 10 xs \<and>
               length (paginatedTransactions xs 2 10) = 2"
  proof -
    have "\<lceil>(6 :: rat) / 5\<rceil> = 2"
      using ceil_div [of 10 12] by simp
    with slice_page [of 10 2 xs] show ?thesis
      by (simp add: pageCount_def)
  qed
  have c7: "pageSize < 2 ^ 53 \<and> length xs < 2 ^ 32 \<longrightarrow>
               pageCountNumber (length xs) pageSize = Fin (of_int (pageCount (length xs) pageSize))"
    using pageCount_agrees [OF assms(1)] by blast
  from c1 c2 c3 c4 c5 c6 c7 show ?thesis
    by blast
qed

theorem pagination_witness:
  "(0::int) < 10 \<and> (0::int) < 2 \<and> length [1 ..< 13] = 12
   \<and> pageCount (length [1 ..< 13]) 10 = 2
   \<and> paginatedTransactions [1 ..< 13] 2 10 = [11, 12]"
proof -
  have len: "length [1 ..< 13] = 12"
    by simp
  have d: "drop 10 [1 ..< 13] = [11, 12]"
    by (simp add: upt_conv_Cons)
  from pagination [of 10 2 "[1 ..< 13]"] len d show ?thesis
    by simp
qed

end
